theory Spec2Isabelle
  imports Main "HOL-Library.Word" "HOL-Library.Signed_Division"
begin

section \<open>Go runtime helpers used by the cache manager\<close>

text \<open>
  Byte slices and Go strings are both lists of 8-bit characters. A \<open>time.Duration\<close> is a
  signed 64-bit count of nanoseconds, so \<open>DefaultTTL*2\<close> wraps as it does in Go. Sizes
  (\<open>len\<close>, the limits of \<open>LargeValueConfig\<close>) are Go \<open>int\<close>s; they are modelled as
  integers, and no size computed below leaves the 64-bit range as long as the limits are
  themselves Go \<open>int\<close>s.
\<close>

type_synonym bytes = string

type_synonym duration = "64 word"

text \<open>An \<open>interface{}\<close> identifier as the callers pass it, and its \<open>%v\<close> rendering.\<close>

datatype go_value = GoNil | GoInt int | GoString string

definition HasPrefix :: "string \<Rightarrow> string \<Rightarrow> bool" where
  "HasPrefix s p = (take (length p) s = p)"

text \<open>\<open>strings.Split(s, sep)\<close> for a one-character separator: never the empty list.\<close>

primrec Split :: "string \<Rightarrow> char \<Rightarrow> string list" where
  "Split [] sep = [[]]"
| "Split (c # cs) sep =
     (if c = sep then [] # Split cs sep
      else (case Split cs sep of [] \<Rightarrow> [[c]] | p # ps \<Rightarrow> (c # p) # ps))"

definition digit_char :: "nat \<Rightarrow> char" where
  "digit_char d = char_of (48 + d)"

fun Itoa_nat :: "nat \<Rightarrow> string" where
  "Itoa_nat n = (if n < 10 then [digit_char n] else Itoa_nat (n div 10) @ [digit_char (n mod 10)])"

declare Itoa_nat.simps [simp del]

text \<open>The \<open>%d\<close> verb of \<open>fmt.Sprintf\<close> on an \<open>int\<close>.\<close>

definition Itoa :: "int \<Rightarrow> string" where
  "Itoa i = (if i < 0 then CHR ''-'' # Itoa_nat (nat (- i)) else Itoa_nat (nat i))"

definition is_digit :: "char \<Rightarrow> bool" where
  "is_digit c = (48 \<le> (of_char c :: nat) \<and> (of_char c :: nat) \<le> 57)"

definition digits_value :: "string \<Rightarrow> nat" where
  "digits_value ds = foldl (\<lambda>acc c. 10 * acc + (of_char c - 48)) 0 ds"

text \<open>
  \<open>strconv.Atoi\<close>: an optional sign, then at least one decimal digit, and a value that
  fits an \<open>int\<close>; anything else is an error (\<open>None\<close>).
\<close>

definition Atoi :: "string \<Rightarrow> int option" where
  "Atoi s =
     (case (case s of [] \<Rightarrow> (False, [])
            | c # cs \<Rightarrow> if c = CHR ''-'' then (True, cs)
                       else if c = CHR ''+'' then (False, cs) else (False, s)) of
        (neg, ds) \<Rightarrow>
          if ds = [] \<or> \<not> list_all is_digit ds then None
          else (let v = (if neg then - int (digits_value ds) else int (digits_value ds))
                in if v < - (2 ^ 63) \<or> 2 ^ 63 \<le> v then None else Some v))"

text \<open>The \<open>%t\<close> verb.\<close>

definition FormatBool :: "bool \<Rightarrow> string" where
  "FormatBool b = (if b then ''true'' else ''false'')"

fun fmt_v :: "go_value \<Rightarrow> string" where
  "fmt_v GoNil = ''<nil>''"
| "fmt_v (GoInt i) = Itoa i"
| "fmt_v (GoString s) = s"

section \<open>The cache backend behind \<open>redis.UniversalClient\<close>\<close>

text \<open>
  The client library and the server are not part of the repository. They are modelled at
  the interface the manager calls: one keyspace of typed values with an optional time to
  live, the commands the manager issues, and a fault schedule. Every round trip to the
  server takes the head of \<open>faults\<close>; \<open>True\<close> there makes that round trip fail with a
  connection error and leaves the keyspace as it was. An empty schedule is a healthy
  backend. \<open>issued\<close> counts the round trips, so that "no cache access" can be stated.
  The server keeps a time to live in milliseconds; time does not pass.
\<close>

datatype rvalue = RString bytes | RSet "string list"

record entry =
  payload :: rvalue
  expiry :: "int option"

datatype redis_err = RedisNil | WrongType | ConnError | NilClient

record backend =
  keyspace :: "string \<Rightarrow> entry option"
  faults :: "bool list"
  issued :: nat

datatype cmd =
    CmdSet string bytes duration
  | CmdSAdd string string
  | CmdExpire string duration

definition attempt :: "backend \<Rightarrow> backend \<times> bool" where
  "attempt c =
     (c\<lparr>faults := tl (faults c), issued := Suc (issued c)\<rparr>,
      (case faults c of [] \<Rightarrow> False | f # _ \<Rightarrow> f))"

text \<open>
  How go-redis puts a \<open>time.Duration\<close> on the wire. \<open>EXPIRE\<close> and \<open>SET ... EX\<close> carry whole
  seconds (\<open>formatSec\<close>), \<open>SET ... PX\<close> whole milliseconds (\<open>formatMs\<close>); the division
  truncates, and a positive duration below the unit is sent as one unit. \<open>SET\<close> uses
  milliseconds when the duration is below a second or not a whole number of seconds
  (\<open>usePrecise\<close>).
\<close>

definition Millisecond :: int where
  "Millisecond = 1000000"

definition Second :: int where
  "Second = 1000000000"

definition usePrecise :: "duration \<Rightarrow> bool" where
  "usePrecise dur = (sint dur < Second \<or> sint dur smod Second \<noteq> 0)"

definition formatMs :: "duration \<Rightarrow> int" where
  "formatMs dur = (if 0 < sint dur \<and> sint dur < Millisecond then 1 else sint dur sdiv Millisecond)"

definition formatSec :: "duration \<Rightarrow> int" where
  "formatSec dur = (if 0 < sint dur \<and> sint dur < Second then 1 else sint dur sdiv Second)"

text \<open>
  \<open>SET key value\<close> with the expiration go-redis sends: a positive duration is the new time
  to live (\<open>PX\<close> or \<open>EX\<close>), \<open>KeepTTL\<close> (-1) keeps the old one, anything else stores the value
  without one. The result is the time to live in milliseconds the server then holds.
\<close>

definition set_expiry :: "duration \<Rightarrow> int option \<Rightarrow> int option" where
  "set_expiry d old =
     (if 0 < sint d then Some (if usePrecise d then formatMs d else formatSec d * 1000)
      else if d = - 1 then old else None)"

fun run_cmd :: "cmd \<Rightarrow> (string \<Rightarrow> entry option) \<Rightarrow> (string \<Rightarrow> entry option) \<times> redis_err option" where
  "run_cmd (CmdSet k v d) ks =
     (ks(k \<mapsto> \<lparr>payload = RString v,
                expiry = set_expiry d (case ks k of None \<Rightarrow> None | Some e \<Rightarrow> expiry e)\<rparr>), None)"
| "run_cmd (CmdSAdd k x) ks =
     (case ks k of
        None \<Rightarrow> (ks(k \<mapsto> \<lparr>payload = RSet [x], expiry = None\<rparr>), None)
      | Some e \<Rightarrow>
          (case payload e of
             RSet xs \<Rightarrow> (ks(k \<mapsto> e\<lparr>payload := RSet (if x \<in> set xs then xs else xs @ [x])\<rparr>), None)
           | RString _ \<Rightarrow> (ks, Some WrongType)))"
| "run_cmd (CmdExpire k d) ks =
     (case ks k of
        None \<Rightarrow> (ks, None)
      | Some e \<Rightarrow> if formatSec d \<le> 0 then (ks(k := None), None)
                 else (ks(k \<mapsto> e\<lparr>expiry := Some (formatSec d * 1000)\<rparr>), None))"

text \<open>
  A pipeline runs its commands in order in one round trip; a command that fails does not
  stop the ones after it, and \<open>Exec\<close> reports the first error.
\<close>

fun run_cmds :: "cmd list \<Rightarrow> (string \<Rightarrow> entry option) \<Rightarrow> (string \<Rightarrow> entry option) \<times> redis_err option" where
  "run_cmds [] ks = (ks, None)"
| "run_cmds (x # xs) ks =
     (case run_cmd x ks of
        (ks1, e1) \<Rightarrow>
          (case run_cmds xs ks1 of
             (ks2, e2) \<Rightarrow> (ks2, (case e1 of Some e \<Rightarrow> Some e | None \<Rightarrow> e2))))"

definition result_of :: "redis_err option \<Rightarrow> redis_err + unit" where
  "result_of r = (case r of None \<Rightarrow> Inr () | Some e \<Rightarrow> Inl e)"

definition client_Exec :: "cmd list \<Rightarrow> backend \<Rightarrow> backend \<times> (redis_err + unit)" where
  "client_Exec cmds c =
     (if cmds = [] then (c, Inr ())
      else (case attempt c of
              (c1, failed) \<Rightarrow>
                if failed then (c1, Inl ConnError)
                else (case run_cmds cmds (keyspace c1) of
                        (ks, r) \<Rightarrow> (c1\<lparr>keyspace := ks\<rparr>, result_of r))))"

definition client_Do :: "cmd \<Rightarrow> backend \<Rightarrow> backend \<times> (redis_err + unit)" where
  "client_Do x c =
     (case attempt c of
        (c1, failed) \<Rightarrow>
          if failed then (c1, Inl ConnError)
          else (case run_cmd x (keyspace c1) of
                  (ks, r) \<Rightarrow> (c1\<lparr>keyspace := ks\<rparr>, result_of r)))"

definition client_Get :: "string \<Rightarrow> backend \<Rightarrow> backend \<times> (redis_err + bytes)" where
  "client_Get k c =
     (case attempt c of
        (c1, failed) \<Rightarrow>
          if failed then (c1, Inl ConnError)
          else (case keyspace c1 k of
                  None \<Rightarrow> (c1, Inl RedisNil)
                | Some e \<Rightarrow>
                    (case payload e of
                       RString v \<Rightarrow> (c1, Inr v)
                     | RSet _ \<Rightarrow> (c1, Inl WrongType))))"

definition client_Del :: "string list \<Rightarrow> backend \<Rightarrow> backend \<times> (redis_err + unit)" where
  "client_Del ks c =
     (case attempt c of
        (c1, failed) \<Rightarrow>
          if failed then (c1, Inl ConnError)
          else (c1\<lparr>keyspace := (\<lambda>k. if k \<in> set ks then None else keyspace c1 k)\<rparr>, Inr ()))"

definition client_Exists :: "string \<Rightarrow> backend \<Rightarrow> backend \<times> (redis_err + bool)" where
  "client_Exists k c =
     (case attempt c of
        (c1, failed) \<Rightarrow>
          if failed then (c1, Inl ConnError)
          else (c1, Inr (keyspace c1 k \<noteq> None)))"

definition client_SMembers :: "string \<Rightarrow> backend \<Rightarrow> backend \<times> (redis_err + string list)" where
  "client_SMembers k c =
     (case attempt c of
        (c1, failed) \<Rightarrow>
          if failed then (c1, Inl ConnError)
          else (case keyspace c1 k of
                  None \<Rightarrow> (c1, Inr [])
                | Some e \<Rightarrow>
                    (case payload e of
                       RSet xs \<Rightarrow> (c1, Inr xs)
                     | RString _ \<Rightarrow> (c1, Inl WrongType))))"

section \<open>Configuration, metrics and errors of package redis\<close>

record LargeValueConfig =
  MaxValueSize :: int
  ChunkSize :: int
  CompressThreshold :: int
  EnableCompression :: bool
  EnableChunking :: bool

record Config =
  Enabled :: bool
  DefaultTTL :: duration
  LargeValue :: LargeValueConfig

text \<open>
  The counters of \<open>Metrics\<close> (\<open>atomic.Uint64\<close>). The three latency totals add measured
  wall-clock time and are left out; the operation counters recorded with them are kept.
\<close>

record Metrics =
  cacheHits :: "64 word"
  cacheMisses :: "64 word"
  cacheErrors :: "64 word"
  getOperations :: "64 word"
  setOperations :: "64 word"
  deleteOperations :: "64 word"
  compressionSaves :: "64 word"
  chunkedOperations :: "64 word"
  invalidationCount :: "64 word"
  dependencyCount :: "64 word"

definition RecordCacheHit :: "Metrics \<Rightarrow> Metrics" where
  "RecordCacheHit x = x\<lparr>cacheHits := cacheHits x + 1\<rparr>"

definition RecordCacheMiss :: "Metrics \<Rightarrow> Metrics" where
  "RecordCacheMiss x = x\<lparr>cacheMisses := cacheMisses x + 1\<rparr>"

definition RecordCacheError :: "Metrics \<Rightarrow> Metrics" where
  "RecordCacheError x = x\<lparr>cacheErrors := cacheErrors x + 1\<rparr>"

definition RecordGet :: "Metrics \<Rightarrow> Metrics" where
  "RecordGet x = x\<lparr>getOperations := getOperations x + 1\<rparr>"

definition RecordSet :: "Metrics \<Rightarrow> Metrics" where
  "RecordSet x = x\<lparr>setOperations := setOperations x + 1\<rparr>"

definition RecordDelete :: "Metrics \<Rightarrow> Metrics" where
  "RecordDelete x = x\<lparr>deleteOperations := deleteOperations x + 1\<rparr>"

definition RecordCompression :: "Metrics \<Rightarrow> 64 word \<Rightarrow> Metrics" where
  "RecordCompression x bytesSaved = x\<lparr>compressionSaves := compressionSaves x + bytesSaved\<rparr>"

definition RecordChunked :: "Metrics \<Rightarrow> Metrics" where
  "RecordChunked x = x\<lparr>chunkedOperations := chunkedOperations x + 1\<rparr>"

definition RecordInvalidation :: "Metrics \<Rightarrow> Metrics" where
  "RecordInvalidation x = x\<lparr>invalidationCount := invalidationCount x + 1\<rparr>"

definition RecordDependency :: "Metrics \<Rightarrow> Metrics" where
  "RecordDependency x = x\<lparr>dependencyCount := dependencyCount x + 1\<rparr>"

text \<open>
  Every error the manager returns: the sentinels of the package, and one constructor for
  each \<open>fmt.Errorf\<close> site. \<open>BackendError\<close> is a client error handed on unwrapped.
\<close>

datatype error =
    ErrCacheDisabled
  | ErrClientNotInitialized
  | ErrKeyNotFound
  | RedisGetError redis_err
  | BackendError redis_err
  | ValueTooLarge int int
  | CompressFailed string
  | GzipError string
  | InvalidChunkMetadata string
  | InvalidChunkCount string
  | ChunkGetFailed int redis_err
  | InvalidMetadata string
  | ScanFailed string redis_err
  | DeleteBatchFailed redis_err
  | AddDependencyFailed redis_err
  | GetDependenciesFailed redis_err

record Manager =
  config :: Config
  client :: "backend option"
  metrics :: Metrics

text \<open>
  \<open>compress/gzip\<close> is a library outside the repository: its two directions are
  parameters, a function each, that fail with a message or return bytes.
\<close>

record gzip =
  gzip_write :: "bytes \<Rightarrow> string + bytes"
  gzip_read :: "bytes \<Rightarrow> string + bytes"

definition cacheMetadataSuffix :: string where
  "cacheMetadataSuffix = ''_internal:meta''"

definition cacheChunkPrefix :: string where
  "cacheChunkPrefix = ''_internal:chunk''"

definition chunkKey :: "string \<Rightarrow> int \<Rightarrow> string" where
  "chunkKey key i = key @ cacheChunkPrefix @ '':'' @ Itoa i"

definition dependencyKey :: "string \<Rightarrow> go_value \<Rightarrow> string" where
  "dependencyKey entityType entityID = ''sql4go'' @ '':'' @ ''deps'' @ '':'' @ entityType @ '':'' @ fmt_v entityID"

section \<open>Manager: plain operations\<close>

text \<open>
  A method call on the client. The public methods call \<open>checkClient\<close> first, so the
  nil dereference (\<open>NilClient\<close>, a panic in Go) is never reached through them.
\<close>

definition call :: "Manager \<Rightarrow> (backend \<Rightarrow> backend \<times> (redis_err + 'a)) \<Rightarrow> Manager \<times> (redis_err + 'a)" where
  "call m f =
     (case client m of
        None \<Rightarrow> (m, Inl NilClient)
      | Some c \<Rightarrow> (case f c of (c1, r) \<Rightarrow> (m\<lparr>client := Some c1\<rparr>, r)))"

definition checkClient :: "Manager \<Rightarrow> error option" where
  "checkClient m =
     (if \<not> Enabled (config m) then Some ErrCacheDisabled
      else if client m = None then Some ErrClientNotInitialized
      else None)"

definition err_of :: "redis_err + 'a \<Rightarrow> error option" where
  "err_of r = (case r of Inl e \<Rightarrow> Some (BackendError e) | Inr _ \<Rightarrow> None)"

definition Get :: "Manager \<Rightarrow> string \<Rightarrow> Manager \<times> (error + bytes)" where
  "Get m key =
     (case checkClient m of
        Some err \<Rightarrow> (m, Inl err)
      | None \<Rightarrow>
          (case call m (client_Get key) of
             (m1, r) \<Rightarrow>
               (let m2 = m1\<lparr>metrics := RecordGet (metrics m1)\<rparr> in
                case r of
                  Inl e \<Rightarrow>
                    if e = RedisNil then (m2\<lparr>metrics := RecordCacheMiss (metrics m2)\<rparr>, Inl ErrKeyNotFound)
                    else (m2\<lparr>metrics := RecordCacheError (metrics m2)\<rparr>, Inl (RedisGetError e))
                | Inr v \<Rightarrow> (m2\<lparr>metrics := RecordCacheHit (metrics m2)\<rparr>, Inr v))))"

definition Set :: "Manager \<Rightarrow> string \<Rightarrow> bytes \<Rightarrow> Manager \<times> error option" where
  "Set m key v =
     (case checkClient m of
        Some err \<Rightarrow> (m, Some err)
      | None \<Rightarrow>
          (case call m (client_Do (CmdSet key v (DefaultTTL (config m)))) of
             (m1, r) \<Rightarrow> (m1\<lparr>metrics := RecordSet (metrics m1)\<rparr>, err_of r)))"

definition SetWithTTL :: "Manager \<Rightarrow> string \<Rightarrow> bytes \<Rightarrow> duration \<Rightarrow> Manager \<times> error option" where
  "SetWithTTL m key v d =
     (case checkClient m of
        Some err \<Rightarrow> (m, Some err)
      | None \<Rightarrow> (case call m (client_Do (CmdSet key v d)) of (m1, r) \<Rightarrow> (m1, err_of r)))"

definition DeleteKeys :: "Manager \<Rightarrow> string list \<Rightarrow> Manager \<times> error option" where
  "DeleteKeys m keys =
     (case checkClient m of
        Some err \<Rightarrow> (m, Some err)
      | None \<Rightarrow>
          if keys = [] then (m, None)
          else (case call m (client_Del keys) of (m1, r) \<Rightarrow> (m1, err_of r)))"

definition Exists :: "Manager \<Rightarrow> string \<Rightarrow> Manager \<times> (error + bool)" where
  "Exists m key =
     (case checkClient m of
        Some err \<Rightarrow> (m, Inl err)
      | None \<Rightarrow>
          (case call m (client_Exists key) of
             (m1, Inl e) \<Rightarrow> (m1, Inl (BackendError e))
           | (m1, Inr b) \<Rightarrow> (m1, Inr b)))"

section \<open>Manager: large values\<close>

definition getLargeValueConfig :: "Manager \<Rightarrow> int \<times> int \<times> int \<times> bool \<times> bool" where
  "getLargeValueConfig m =
     (let cfg = LargeValue (config m);
          maxSize = (if MaxValueSize cfg \<le> 0 then 1024 * 1024 * 10 else MaxValueSize cfg);
          chunkSize = (if ChunkSize cfg \<le> 0 then 1024 * 1024 * 2 else ChunkSize cfg);
          compressThreshold = (if CompressThreshold cfg \<le> 0 then 1024 * 100 else CompressThreshold cfg)
      in (maxSize, chunkSize, compressThreshold, EnableCompression cfg, EnableChunking cfg))"

definition compressData :: "gzip \<Rightarrow> bytes \<Rightarrow> error + bytes" where
  "compressData gz data = (case gzip_write gz data of Inl e \<Rightarrow> Inl (CompressFailed e) | Inr out \<Rightarrow> Inr out)"

definition decompressData :: "gzip \<Rightarrow> bytes \<Rightarrow> error + bytes" where
  "decompressData gz data = (case gzip_read gz data of Inl e \<Rightarrow> Inl (GzipError e) | Inr out \<Rightarrow> Inr out)"

text \<open>\<open>data[start:end]\<close>; the loop below keeps \<open>0 \<le> start \<le> end \<le> len(data)\<close>.\<close>

definition slice :: "bytes \<Rightarrow> int \<Rightarrow> int \<Rightarrow> bytes" where
  "slice data start end' = take (nat (end' - start)) (drop (nat start) data)"

text \<open>The chunk loop of \<open>setChunked\<close>: the \<open>SET\<close> commands it queues from index \<open>i\<close> on.\<close>

function chunkCmds :: "string \<Rightarrow> bytes \<Rightarrow> int \<Rightarrow> duration \<Rightarrow> int \<Rightarrow> int \<Rightarrow> cmd list" where
  "chunkCmds key data chunkSize d chunkCount i =
     (if i < chunkCount then
        (let start = i * chunkSize;
             end0 = start + chunkSize;
             end1 = (if end0 > int (length data) then int (length data) else end0)
         in CmdSet (chunkKey key i) (slice data start end1) d
            # chunkCmds key data chunkSize d chunkCount (i + 1))
      else [])"
  by pat_completeness auto
termination
  by (relation "measure (\<lambda>(key, data, chunkSize, d, chunkCount, i). nat (chunkCount - i))") auto

declare chunkCmds.simps [simp del]

definition setChunked :: "Manager \<Rightarrow> string \<Rightarrow> bytes \<Rightarrow> bool \<Rightarrow> int \<Rightarrow> Manager \<times> error option" where
  "setChunked m key data compressed chunkSize =
     (let chunkCount = (int (length data) + chunkSize - 1) div chunkSize;
          metadataKey = key @ cacheMetadataSuffix;
          metadata = ''chunked:'' @ FormatBool compressed @ '':'' @ Itoa chunkCount;
          pipe = CmdSet metadataKey metadata (DefaultTTL (config m))
                 # chunkCmds key data chunkSize (DefaultTTL (config m)) chunkCount 0
      in (case call m (client_Exec pipe) of (m1, r) \<Rightarrow> (m1, err_of r)))"

definition setWithMetadata :: "Manager \<Rightarrow> string \<Rightarrow> bytes \<Rightarrow> bool \<Rightarrow> bool \<Rightarrow> Manager \<times> error option" where
  "setWithMetadata m key data compressed chunked =
     (if compressed then
        (let metadataKey = key @ cacheMetadataSuffix;
             metadata = ''single:'' @ FormatBool compressed @ '':1'';
             pipe = [CmdSet metadataKey metadata (DefaultTTL (config m)),
                     CmdSet key data (DefaultTTL (config m))]
         in (case call m (client_Exec pipe) of (m1, r) \<Rightarrow> (m1, err_of r)))
      else Set m key data)"

definition SetLarge :: "gzip \<Rightarrow> Manager \<Rightarrow> string \<Rightarrow> bytes \<Rightarrow> Manager \<times> error option" where
  "SetLarge gz m key v =
     (case checkClient m of
        Some err \<Rightarrow> (m, Some err)
      | None \<Rightarrow>
          (case getLargeValueConfig m of
             (maxSize, chunkSize, compressThreshold, enableCompression, enableChunking) \<Rightarrow>
               if int (length v) > maxSize then (m, Some (ValueTooLarge (int (length v)) maxSize))
               else
                 (case (if enableCompression \<and> int (length v) > compressThreshold then
                          (case compressData gz v of
                             Inl e \<Rightarrow> Inl e
                           | Inr compressedValue \<Rightarrow>
                               if length compressedValue < length v then
                                 Inr (m\<lparr>metrics := RecordCompression (metrics m)
                                            (of_nat (length v - length compressedValue))\<rparr>,
                                      compressedValue, True)
                               else Inr (m, v, False))
                        else Inr (m, v, False)) of
                    Inl e \<Rightarrow> (m, Some e)
                  | Inr (m1, processedValue, compressed) \<Rightarrow>
                      if enableChunking \<and> int (length processedValue) > chunkSize then
                        setChunked (m1\<lparr>metrics := RecordChunked (metrics m1)\<rparr>) key processedValue compressed chunkSize
                      else setWithMetadata m1 key processedValue compressed False)))"

definition isChunkedValue :: "Manager \<Rightarrow> string \<Rightarrow> Manager \<times> (error + bool)" where
  "isChunkedValue m key =
     (case call m (client_Get (key @ cacheMetadataSuffix)) of
        (m1, Inl e) \<Rightarrow> if e = RedisNil then (m1, Inr False) else (m1, Inl (BackendError e))
      | (m1, Inr metadata) \<Rightarrow> (m1, Inr (HasPrefix metadata ''chunked:'')))"

text \<open>The chunk loop of \<open>getChunked\<close>: it stops at the first chunk it cannot read.\<close>

function getChunks :: "Manager \<Rightarrow> string \<Rightarrow> int \<Rightarrow> int \<Rightarrow> bytes list \<Rightarrow> Manager \<times> (error + bytes list)" where
  "getChunks m key chunkCount i chunks =
     (if i < chunkCount then
        (case call m (client_Get (chunkKey key i)) of
           (m1, Inl e) \<Rightarrow> (m1, Inl (ChunkGetFailed i e))
         | (m1, Inr chunk) \<Rightarrow> getChunks m1 key chunkCount (i + 1) (chunks @ [chunk]))
      else (m, Inr chunks))"
  by pat_completeness auto
termination
  by (relation "measure (\<lambda>(m, key, chunkCount, i, chunks). nat (chunkCount - i))") auto

declare getChunks.simps [simp del]

definition getChunked :: "Manager \<Rightarrow> string \<Rightarrow> Manager \<times> (error + bytes \<times> bool)" where
  "getChunked m key =
     (case call m (client_Get (key @ cacheMetadataSuffix)) of
        (m1, Inl e) \<Rightarrow> if e = RedisNil then (m1, Inl ErrKeyNotFound) else (m1, Inl (BackendError e))
      | (m1, Inr metadata) \<Rightarrow>
          (case Split metadata CHR '':'' of
             [p0, p1, p2] \<Rightarrow>
               if p0 \<noteq> ''chunked'' then (m1, Inl (InvalidChunkMetadata metadata))
               else (case Atoi p2 of
                       None \<Rightarrow> (m1, Inl (InvalidChunkCount p2))
                     | Some chunkCount \<Rightarrow>
                         (case getChunks m1 key chunkCount 0 [] of
                            (m2, Inl e) \<Rightarrow> (m2, Inl e)
                          | (m2, Inr chunks) \<Rightarrow> (m2, Inr (concat chunks, p1 = ''true''))))
           | _ \<Rightarrow> (m1, Inl (InvalidChunkMetadata metadata))))"

definition getWithMetadata :: "Manager \<Rightarrow> string \<Rightarrow> Manager \<times> (error + bytes \<times> bool)" where
  "getWithMetadata m key =
     (case call m (client_Get (key @ cacheMetadataSuffix)) of
        (m1, Inl e) \<Rightarrow>
          if e = RedisNil then
            (case Get m1 key of (m2, Inl err) \<Rightarrow> (m2, Inl err) | (m2, Inr data) \<Rightarrow> (m2, Inr (data, False)))
          else (m1, Inl (BackendError e))
      | (m1, Inr metadata) \<Rightarrow>
          (case Split metadata CHR '':'' of
             [p0, p1, p2] \<Rightarrow>
               if p0 \<noteq> ''single'' then (m1, Inl (InvalidMetadata metadata))
               else (case Get m1 key of
                       (m2, Inl err) \<Rightarrow> (m2, Inl err)
                     | (m2, Inr data) \<Rightarrow> (m2, Inr (data, p1 = ''true'')))
           | _ \<Rightarrow> (m1, Inl (InvalidMetadata metadata))))"

definition GetLarge :: "gzip \<Rightarrow> Manager \<Rightarrow> string \<Rightarrow> Manager \<times> (error + bytes)" where
  "GetLarge gz m key =
     (case checkClient m of
        Some err \<Rightarrow> (m, Inl err)
      | None \<Rightarrow>
          (case isChunkedValue m key of
             (m1, Inl err) \<Rightarrow> (m1, Inl err)
           | (m1, Inr isChunked) \<Rightarrow>
               (case (if isChunked then getChunked m1 key else getWithMetadata m1 key) of
                  (m2, Inl err) \<Rightarrow> (m2, Inl err)
                | (m2, Inr (data, compressed)) \<Rightarrow>
                    if compressed then (m2, decompressData gz data) else (m2, Inr data))))"

text \<open>The loop of \<open>DeleteLarge\<close> that lists the chunk keys \<open>i, i+1, ..., chunkCount-1\<close>.\<close>

function chunkKeys :: "string \<Rightarrow> int \<Rightarrow> int \<Rightarrow> string list" where
  "chunkKeys key chunkCount i =
     (if i < chunkCount then chunkKey key i # chunkKeys key chunkCount (i + 1) else [])"
  by pat_completeness auto
termination
  by (relation "measure (\<lambda>(key, chunkCount, i). nat (chunkCount - i))") auto

declare chunkKeys.simps [simp del]

definition DeleteLarge :: "Manager \<Rightarrow> string \<Rightarrow> Manager \<times> error option" where
  "DeleteLarge m key =
     (case checkClient m of
        Some err \<Rightarrow> (m, Some err)
      | None \<Rightarrow>
          (case isChunkedValue m key of
             (m1, Inl err) \<Rightarrow> (m1, Some err)
           | (m1, Inr isChunked) \<Rightarrow>
               if isChunked then
                 (case call m1 (client_Get (key @ cacheMetadataSuffix)) of
                    (m2, Inl e) \<Rightarrow> DeleteKeys m2 ([key] @ [key @ cacheMetadataSuffix])
                  | (m2, Inr metadata) \<Rightarrow>
                      DeleteKeys m2
                        ([key]
                         @ (case Split metadata CHR '':'' of
                              [p0, p1, p2] \<Rightarrow>
                                (case Atoi p2 of None \<Rightarrow> [] | Some chunkCount \<Rightarrow> chunkKeys key chunkCount 0)
                            | _ \<Rightarrow> [])
                         @ [key @ cacheMetadataSuffix]))
               else
                 (case Exists m1 (key @ cacheMetadataSuffix) of
                    (m2, Inr True) \<Rightarrow> DeleteKeys m2 ([key] @ [key @ cacheMetadataSuffix])
                  | (m2, _) \<Rightarrow> DeleteKeys m2 [key])))"

section \<open>Manager: the dependency index\<close>

definition AddDependency :: "Manager \<Rightarrow> string \<Rightarrow> go_value \<Rightarrow> string \<Rightarrow> Manager \<times> error option" where
  "AddDependency m entityType entityID cacheKey =
     (case checkClient m of
        Some err \<Rightarrow> (m, Some err)
      | None \<Rightarrow>
          (case call m (client_Do (CmdSAdd (dependencyKey entityType entityID) cacheKey)) of
             (m1, Inl e) \<Rightarrow> (m1, Some (AddDependencyFailed e))
           | (m1, Inr _) \<Rightarrow>
               (let m2 = m1\<lparr>metrics := RecordDependency (metrics m1)\<rparr> in
                case call m2 (client_Do (CmdExpire (dependencyKey entityType entityID)
                                                   (DefaultTTL (config m) * 2))) of
                  (m3, Inl e) \<Rightarrow> (m3\<lparr>metrics := RecordCacheError (metrics m3)\<rparr>, None)
                | (m3, Inr _) \<Rightarrow> (m3, None))))"

text \<open>
  \<open>dependencies\<close> is a Go map from entity type to identifiers; it is given as the list of
  its entries in the order the \<open>range\<close> loop happens to visit them.
\<close>

fun idCmds :: "duration \<Rightarrow> string \<Rightarrow> string \<Rightarrow> go_value list \<Rightarrow> cmd list" where
  "idCmds d cacheKey entityType [] = []"
| "idCmds d cacheKey entityType (entityID # ids) =
     CmdSAdd (dependencyKey entityType entityID) cacheKey
     # CmdExpire (dependencyKey entityType entityID) (d * 2)
     # idCmds d cacheKey entityType ids"

fun dependencyCmds :: "duration \<Rightarrow> string \<Rightarrow> (string \<times> go_value list) list \<Rightarrow> cmd list" where
  "dependencyCmds d cacheKey [] = []"
| "dependencyCmds d cacheKey ((entityType, ids) # rest) =
     idCmds d cacheKey entityType ids @ dependencyCmds d cacheKey rest"

definition AddMultipleDependencies :: "Manager \<Rightarrow> (string \<times> go_value list) list \<Rightarrow> string \<Rightarrow> Manager \<times> error option" where
  "AddMultipleDependencies m dependencies cacheKey =
     (case checkClient m of
        Some err \<Rightarrow> (m, Some err)
      | None \<Rightarrow>
          (case call m (client_Exec (dependencyCmds (DefaultTTL (config m)) cacheKey dependencies)) of
             (m1, r) \<Rightarrow> (m1, err_of r)))"

definition SetWithDependencies :: "Manager \<Rightarrow> string \<Rightarrow> bytes \<Rightarrow> (string \<times> go_value list) list \<Rightarrow> Manager \<times> error option" where
  "SetWithDependencies m cacheKey v dependencies =
     (case checkClient m of
        Some err \<Rightarrow> (m, Some err)
      | None \<Rightarrow>
          (case call m (client_Exec (CmdSet cacheKey v (DefaultTTL (config m))
                                     # dependencyCmds (DefaultTTL (config m)) cacheKey dependencies)) of
             (m1, r) \<Rightarrow> (m1, err_of r)))"

text \<open>The loop over the dependent keys: a failed \<open>DeleteLarge\<close> is skipped.\<close>

fun deleteDependents :: "Manager \<Rightarrow> string list \<Rightarrow> Manager" where
  "deleteDependents m [] = m"
| "deleteDependents m (cacheKey # rest) = deleteDependents (fst (DeleteLarge m cacheKey)) rest"

definition InvalidateEntityDependencies :: "Manager \<Rightarrow> string \<Rightarrow> go_value \<Rightarrow> Manager \<times> error option" where
  "InvalidateEntityDependencies m entityType entityID =
     (case checkClient m of
        Some err \<Rightarrow> (m, Some err)
      | None \<Rightarrow>
          (case call m (client_SMembers (dependencyKey entityType entityID)) of
             (m1, Inl e) \<Rightarrow>
               if e \<noteq> RedisNil then (m1, Some (GetDependenciesFailed e)) else (m1, None)
           | (m1, Inr dependentKeys) \<Rightarrow>
               if dependentKeys = [] then (m1, None)
               else (let m2 = deleteDependents m1 dependentKeys
                     in (fst (call m2 (client_Del [dependencyKey entityType entityID])), None))))"

section \<open>Manager: pattern invalidation\<close>

text \<open>
  \<open>SCAN cursor MATCH pattern COUNT n\<close> is answered by the server: which keys of the
  keyspace one page holds and which cursor comes next is the parameter \<open>page\<close>. The loop
  of \<open>InvalidatePattern\<close> runs until the server hands back cursor 0, so it is a partial
  function: \<open>None\<close> stands for a scan that never ends.
\<close>

type_synonym scan_page = "(string \<Rightarrow> entry option) \<Rightarrow> 64 word \<Rightarrow> string \<Rightarrow> int \<Rightarrow> string list \<times> 64 word"

definition client_Scan :: "scan_page \<Rightarrow> 64 word \<Rightarrow> string \<Rightarrow> int \<Rightarrow> backend \<Rightarrow> backend \<times> (redis_err + string list \<times> 64 word)" where
  "client_Scan page cursor pattern n c =
     (case attempt c of
        (c1, failed) \<Rightarrow>
          if failed then (c1, Inl ConnError)
          else (c1, Inr (page (keyspace c1) cursor pattern n)))"

partial_function (option) scanLoop :: "scan_page \<Rightarrow> Manager \<Rightarrow> string \<Rightarrow> 64 word \<Rightarrow> (Manager \<times> error option) option" where
  "scanLoop page m pattern cursor =
     (case call m (client_Scan page cursor pattern 100) of
        (m1, Inl e) \<Rightarrow> Some (m1, Some (ScanFailed pattern e))
      | (m1, Inr (batch, cursor1)) \<Rightarrow>
          (case (if batch \<noteq> [] then
                   (case call m1 (client_Del batch) of
                      (m2, Inl e) \<Rightarrow> Inl (m2, DeleteBatchFailed e)
                    | (m2, Inr _) \<Rightarrow> Inr (m2\<lparr>metrics := RecordInvalidation (metrics m2)\<rparr>))
                 else Inr m1) of
             Inl (m2, err) \<Rightarrow> Some (m2, Some err)
           | Inr m2 \<Rightarrow> if cursor1 = 0 then Some (m2, None) else scanLoop page m2 pattern cursor1))"

definition InvalidatePattern :: "scan_page \<Rightarrow> Manager \<Rightarrow> string \<Rightarrow> (Manager \<times> error option) option" where
  "InvalidatePattern page m pattern =
     (case checkClient m of
        Some err \<Rightarrow> Some (m, Some err)
      | None \<Rightarrow> scanLoop page m pattern 0)"

definition SetLargeWithDependencies :: "gzip \<Rightarrow> Manager \<Rightarrow> string \<Rightarrow> bytes \<Rightarrow> (string \<times> go_value list) list \<Rightarrow> Manager \<times> error option" where
  "SetLargeWithDependencies gz m cacheKey v dependencies =
     (case SetLarge gz m cacheKey v of
        (m1, Some err) \<Rightarrow> (m1, Some err)
      | (m1, None) \<Rightarrow> AddMultipleDependencies m1 dependencies cacheKey)"

definition IsKeyNotFound :: "error \<Rightarrow> bool" where
  "IsKeyNotFound err = (err = ErrKeyNotFound)"

section \<open>Package repository: data\<close>

text \<open>
  \<open>GenericRepository[T]\<close>. \<open>db\<close> is the \<open>*gorm.DB\<close> handle (the query it has built so far);
  \<open>dbManager\<close> is kept as the one thing read through it, the configured query timeout
  (\<open>None\<close>: no manager or no configuration); \<open>redis\<close> says whether the manager pointer is
  non-nil, the manager itself being part of the world the operations run in.
\<close>

record 'h GenericRepository =
  db :: 'h
  dbManager :: "duration option"
  redis :: bool
  entityType :: string
  tableName :: string
  primaryKey :: string
  dbName :: string

record RelatedEntity =
  EntityType :: string
  EntityID :: go_value

datatype db_err = ErrRecordNotFound | DbError string

text \<open>The \<open>query interface{}\<close> argument, by the cases of the type switch.\<close>

datatype query =
    QString string
  | QMap "(string \<times> go_value) list"
  | QGormDB
  | QOther string string

datatype repo_error =
    IdNil
  | EntityNil
  | ContextCancelled string
  | DatabaseError db_err
  | DatabaseFindError db_err
  | BatchCreateError db_err
  | BatchUpdateError db_err

record go_context =
  ctx_err :: "string option"

record 'w world =
  mgr :: Manager
  dbs :: 'w

text \<open>
  What the repository calls and the sources do not hold: gorm (its statements against the
  database state \<open>'w\<close>, and its chain methods on the handle \<open>'h\<close>, \<open>WithContext\<close> among
  them), \<open>context.WithTimeout\<close>, the typed cache helpers \<open>GetValue\<close>, \<open>SetValue\<close>,
  \<open>GetLargeValue\<close>, \<open>SetLargeValue\<close> of package redis, the entity's own methods, reflection
  over its struct tags, JSON, xxhash, gzip and the server's scan. Each is a parameter: a
  theorem below holds whatever these functions do. \<open>WithTimeout\<close> gives the derived context
  as the caller finds it when it reads \<open>Err()\<close> next: with the parent's error, with
  \<open>DeadlineExceeded\<close> when the timeout has already run out, or with none.
\<close>

record ('h, 'w, 'e) env =
  db_First :: "'h \<Rightarrow> go_value \<Rightarrow> 'w \<Rightarrow> 'w \<times> (db_err + 'e)"
  db_Find :: "'h \<Rightarrow> 'w \<Rightarrow> 'w \<times> (db_err + 'e list)"
  db_WhereFind :: "'h \<Rightarrow> query \<Rightarrow> go_value list \<Rightarrow> 'w \<Rightarrow> 'w \<times> (db_err + 'e list)"
  db_WhereFirst :: "'h \<Rightarrow> query \<Rightarrow> go_value list \<Rightarrow> 'w \<Rightarrow> 'w \<times> (db_err + 'e)"
  db_Count :: "'h \<Rightarrow> 'w \<Rightarrow> 'w \<times> (db_err + int)"
  db_Create :: "'h \<Rightarrow> 'e \<Rightarrow> 'w \<Rightarrow> 'w \<times> (db_err + 'e)"
  db_Save :: "'h \<Rightarrow> 'e \<Rightarrow> 'w \<Rightarrow> 'w \<times> (db_err + 'e)"
  db_Delete :: "'h \<Rightarrow> 'e \<Rightarrow> 'w \<Rightarrow> 'w \<times> db_err option"
  db_CreateBatch :: "'h \<Rightarrow> 'e option list \<Rightarrow> 'w \<Rightarrow> 'w \<times> (db_err + 'e option list)"
  db_SaveBatch :: "'h \<Rightarrow> 'e option list \<Rightarrow> 'w \<Rightarrow> 'w \<times> (db_err + 'e option list)"
  WithTimeout :: "go_context \<Rightarrow> duration \<Rightarrow> go_context"
  h_WithContext :: "'h \<Rightarrow> go_context \<Rightarrow> 'h"
  h_Preload :: "'h \<Rightarrow> string \<Rightarrow> 'h"
  h_Joins :: "'h \<Rightarrow> string \<Rightarrow> go_value list \<Rightarrow> 'h"
  h_Order :: "'h \<Rightarrow> go_value \<Rightarrow> 'h"
  h_Limit :: "'h \<Rightarrow> int \<Rightarrow> 'h"
  h_Offset :: "'h \<Rightarrow> int \<Rightarrow> 'h"
  GetValue :: "Manager \<Rightarrow> string \<Rightarrow> Manager \<times> (error + 'e)"
  GetValueCount :: "Manager \<Rightarrow> string \<Rightarrow> Manager \<times> (error + int)"
  GetLargeValue :: "Manager \<Rightarrow> string \<Rightarrow> Manager \<times> (error + 'e list)"
  SetValue :: "Manager \<Rightarrow> string \<Rightarrow> 'e \<Rightarrow> Manager \<times> error option"
  SetValueCount :: "Manager \<Rightarrow> string \<Rightarrow> int \<Rightarrow> Manager \<times> error option"
  SetLargeValue :: "Manager \<Rightarrow> string \<Rightarrow> 'e list \<Rightarrow> Manager \<times> error option"
  GetPrimaryKeyValue :: "'e \<Rightarrow> go_value"
  GetRelationships :: "'e \<Rightarrow> (string \<times> RelatedEntity list) list option"
  extractRelationshipsFromEntity :: "'e \<Rightarrow> go_value \<Rightarrow> (string \<times> RelatedEntity list) list"
  is_zero :: "'e \<Rightarrow> bool"
  json_Marshal :: "'e list \<Rightarrow> string + bytes"
  json_Marshal_map :: "(string \<times> go_value) list \<Rightarrow> string + string"
  json_Marshal_args :: "go_value list \<Rightarrow> string + string"
  Sprint_map :: "(string \<times> go_value) list \<Rightarrow> string"
  Sprint_args :: "go_value list \<Rightarrow> string"
  Sum64String :: "string \<Rightarrow> 64 word"
  gzip_lib :: gzip
  scan_server :: scan_page

section \<open>Package repository: cache keys\<close>

definition cacheKeyPrefix :: string where
  "cacheKeyPrefix = ''sql4go''"

definition cacheKeySeparator :: string where
  "cacheKeySeparator = '':''"

definition cacheKeyHashLength :: nat where
  "cacheKeyHashLength = 12"

definition generateCacheKey :: "'h GenericRepository \<Rightarrow> string \<Rightarrow> string \<Rightarrow> string" where
  "generateCacheKey r operation suffix =
     (if suffix = [] then
        cacheKeyPrefix @ cacheKeySeparator @ dbName r @ cacheKeySeparator @ tableName r
        @ cacheKeySeparator @ operation
      else
        cacheKeyPrefix @ cacheKeySeparator @ dbName r @ cacheKeySeparator @ tableName r
        @ cacheKeySeparator @ operation @ cacheKeySeparator @ suffix)"

text \<open>The \<open>%016x\<close> verb on a \<open>uint64\<close>: sixteen lower-case hexadecimal digits.\<close>

definition hex_digit :: "nat \<Rightarrow> char" where
  "hex_digit n = (if n < 10 then char_of (48 + n) else char_of (87 + n))"

definition hex16 :: "64 word \<Rightarrow> string" where
  "hex16 w = map (\<lambda>i. hex_digit ((unat w div 16 ^ (15 - i)) mod 16)) [0..<16]"

definition generateCacheKeyFromQuery :: "('h, 'w, 'e) env \<Rightarrow> 'h GenericRepository \<Rightarrow> string \<Rightarrow> query \<Rightarrow> go_value list \<Rightarrow> string" where
  "generateCacheKeyFromQuery env r operation q args =
     (let queryStr =
            (case q of
               QString s \<Rightarrow> s
             | QMap mp \<Rightarrow> (case json_Marshal_map env mp of Inl _ \<Rightarrow> Sprint_map env mp | Inr data \<Rightarrow> data)
             | QGormDB \<Rightarrow> ''UNCACHEABLE_GORM_DB''
             | QOther ty v \<Rightarrow> ty @ '':'' @ v);
          argsStr = (case json_Marshal_args env args of Inl _ \<Rightarrow> Sprint_args env args | Inr data \<Rightarrow> data);
          combined = queryStr @ cacheKeySeparator @ argsStr;
          hashStr = hex16 (Sum64String env combined)
      in cacheKeyPrefix @ cacheKeySeparator @ dbName r @ cacheKeySeparator @ tableName r
         @ cacheKeySeparator @ operation @ cacheKeySeparator @ take cacheKeyHashLength hashStr)"

section \<open>Package repository: invalidation\<close>

text \<open>
  \<open>withQueryTimeout\<close> derives a context with the configured timeout, or hands back the
  caller's when no positive timeout is configured. The \<open>cancel\<close> function it also returns
  runs when the operation is over and is left out.
\<close>

definition withQueryTimeout :: "('h, 'w, 'e) env \<Rightarrow> 'h GenericRepository \<Rightarrow> go_context \<Rightarrow> go_context" where
  "withQueryTimeout env r ctx =
     (case dbManager r of
        None \<Rightarrow> ctx
      | Some timeout \<Rightarrow> if 0 < sint timeout then WithTimeout env ctx timeout else ctx)"

definition InvalidateCache :: "('h, 'w, 'e) env \<Rightarrow> 'h GenericRepository \<Rightarrow> Manager \<Rightarrow> (Manager \<times> error option) option" where
  "InvalidateCache env r m =
     (if \<not> redis r then Some (m, None)
      else InvalidatePattern (scan_server env) m (''sql4go:'' @ dbName r @ '':'' @ tableName r @ '':*''))"

text \<open>The two nested loops over a relationship map: one invalidation per related identifier.\<close>

fun invalidateRelated :: "Manager \<Rightarrow> RelatedEntity list \<Rightarrow> Manager" where
  "invalidateRelated m [] = m"
| "invalidateRelated m (related # rest) =
     (if EntityID related \<noteq> GoNil
      then invalidateRelated (fst (InvalidateEntityDependencies m (EntityType related) (EntityID related))) rest
      else invalidateRelated m rest)"

fun invalidateRelationships :: "Manager \<Rightarrow> (string \<times> RelatedEntity list) list \<Rightarrow> Manager" where
  "invalidateRelationships m [] = m"
| "invalidateRelationships m ((kind, relatedEntities) # rest) =
     invalidateRelationships (invalidateRelated m relatedEntities) rest"

definition relationshipsOf :: "('h, 'w, 'e) env \<Rightarrow> 'e \<Rightarrow> (string \<times> RelatedEntity list) list" where
  "relationshipsOf env entity =
     (case GetRelationships env entity of
        Some rels \<Rightarrow> rels
      | None \<Rightarrow> extractRelationshipsFromEntity env entity (GetPrimaryKeyValue env entity))"

definition invalidateEntityCaches :: "('h, 'w, 'e) env \<Rightarrow> 'h GenericRepository \<Rightarrow> 'e \<Rightarrow> Manager \<Rightarrow> Manager option" where
  "invalidateEntityCaches env r entity m =
     (case InvalidateCache env r m of
        None \<Rightarrow> None
      | Some (m1, _) \<Rightarrow>
          (let m2 = fst (InvalidateEntityDependencies m1 (tableName r) (GetPrimaryKeyValue env entity))
           in Some (invalidateRelationships m2 (relationshipsOf env entity))))"

section \<open>Package repository: write operations\<close>

text \<open>
  A write returns the world it leaves and the pair \<open>(cacheInvalidated, error)\<close>; \<open>None\<close> is a
  call that never returns because the scan behind the invalidation never ends. A nil
  \<open>*T\<close> is \<open>None\<close>, a nil \<open>interface{}\<close> identifier is \<open>GoNil\<close>. A write does not look at
  \<open>ctx.Err()\<close> itself: it hands the context derived by \<open>withQueryTimeout\<close> to gorm.
\<close>

definition Create :: "('h, 'w, 'e) env \<Rightarrow> 'h GenericRepository \<Rightarrow> go_context \<Rightarrow> 'e option \<Rightarrow> 'w world \<Rightarrow> ('w world \<times> bool \<times> repo_error option) option" where
  "Create env r ctx entity w =
     (case entity of
        None \<Rightarrow> Some (w, False, Some EntityNil)
      | Some e \<Rightarrow>
          (case db_Create env (h_WithContext env (db r) (withQueryTimeout env r ctx)) e (dbs w) of
             (d1, Inl err) \<Rightarrow> Some (w\<lparr>dbs := d1\<rparr>, False, Some (DatabaseError err))
           | (d1, Inr e1) \<Rightarrow>
               if redis r then
                 (case invalidateEntityCaches env r e1 (mgr w) of
                    None \<Rightarrow> None
                  | Some m1 \<Rightarrow> Some (\<lparr>mgr = m1, dbs = d1\<rparr>, True, None))
               else Some (w\<lparr>dbs := d1\<rparr>, False, None)))"

definition Update :: "('h, 'w, 'e) env \<Rightarrow> 'h GenericRepository \<Rightarrow> go_context \<Rightarrow> 'e option \<Rightarrow> 'w world \<Rightarrow> ('w world \<times> bool \<times> repo_error option) option" where
  "Update env r ctx entity w =
     (case entity of
        None \<Rightarrow> Some (w, False, Some EntityNil)
      | Some e \<Rightarrow>
          (case db_Save env (h_WithContext env (db r) (withQueryTimeout env r ctx)) e (dbs w) of
             (d1, Inl err) \<Rightarrow> Some (w\<lparr>dbs := d1\<rparr>, False, Some (DatabaseError err))
           | (d1, Inr e1) \<Rightarrow>
               if redis r then
                 (case invalidateEntityCaches env r e1 (mgr w) of
                    None \<Rightarrow> None
                  | Some m1 \<Rightarrow> Some (\<lparr>mgr = m1, dbs = d1\<rparr>, True, None))
               else Some (w\<lparr>dbs := d1\<rparr>, False, None)))"

definition Delete :: "('h, 'w, 'e) env \<Rightarrow> 'h GenericRepository \<Rightarrow> go_context \<Rightarrow> go_value \<Rightarrow> 'w world \<Rightarrow> ('w world \<times> bool \<times> repo_error option) option" where
  "Delete env r ctx ident w =
     (if ident = GoNil then Some (w, False, Some IdNil)
      else
        (case db_First env (h_WithContext env (db r) (withQueryTimeout env r ctx)) ident (dbs w) of
           (d1, Inl err) \<Rightarrow>
             if err = ErrRecordNotFound then Some (w\<lparr>dbs := d1\<rparr>, False, None)
             else Some (w\<lparr>dbs := d1\<rparr>, False, Some (DatabaseFindError err))
         | (d1, Inr entity) \<Rightarrow>
             (case db_Delete env (h_WithContext env (db r) (withQueryTimeout env r ctx)) entity d1 of
                (d2, Some err) \<Rightarrow> Some (w\<lparr>dbs := d2\<rparr>, False, Some (DatabaseError err))
              | (d2, None) \<Rightarrow>
                  if redis r then
                    (case invalidateEntityCaches env r entity (mgr w) of
                       None \<Rightarrow> None
                     | Some m1 \<Rightarrow> Some (\<lparr>mgr = m1, dbs = d2\<rparr>, True, None))
                  else Some (w\<lparr>dbs := d2\<rparr>, False, None))))"

text \<open>The loop of the batch operations: nil entries are skipped.\<close>

fun invalidateAll :: "('h, 'w, 'e) env \<Rightarrow> 'h GenericRepository \<Rightarrow> 'e option list \<Rightarrow> Manager \<Rightarrow> Manager option" where
  "invalidateAll env r [] m = Some m"
| "invalidateAll env r (None # rest) m = invalidateAll env r rest m"
| "invalidateAll env r (Some e # rest) m =
     (case invalidateEntityCaches env r e m of
        None \<Rightarrow> None
      | Some m1 \<Rightarrow> invalidateAll env r rest m1)"

definition CreateBatch :: "('h, 'w, 'e) env \<Rightarrow> 'h GenericRepository \<Rightarrow> go_context \<Rightarrow> 'e option list \<Rightarrow> 'w world \<Rightarrow> ('w world \<times> repo_error option) option" where
  "CreateBatch env r ctx entities w =
     (if entities = [] then Some (w, None)
      else
        (case db_CreateBatch env (h_WithContext env (db r) (withQueryTimeout env r ctx)) entities (dbs w) of
           (d1, Inl err) \<Rightarrow> Some (w\<lparr>dbs := d1\<rparr>, Some (BatchCreateError err))
         | (d1, Inr entities1) \<Rightarrow>
             if redis r then
               (case invalidateAll env r entities1 (mgr w) of
                  None \<Rightarrow> None
                | Some m1 \<Rightarrow> Some (\<lparr>mgr = m1, dbs = d1\<rparr>, None))
             else Some (w\<lparr>dbs := d1\<rparr>, None)))"

definition UpdateBatch :: "('h, 'w, 'e) env \<Rightarrow> 'h GenericRepository \<Rightarrow> go_context \<Rightarrow> 'e option list \<Rightarrow> 'w world \<Rightarrow> ('w world \<times> repo_error option) option" where
  "UpdateBatch env r ctx entities w =
     (if entities = [] then Some (w, None)
      else
        (case db_SaveBatch env (h_WithContext env (db r) (withQueryTimeout env r ctx)) entities (dbs w) of
           (d1, Inl err) \<Rightarrow> Some (w\<lparr>dbs := d1\<rparr>, Some (BatchUpdateError err))
         | (d1, Inr entities1) \<Rightarrow>
             if redis r then
               (case invalidateAll env r entities1 (mgr w) of
                  None \<Rightarrow> None
                | Some m1 \<Rightarrow> Some (\<lparr>mgr = m1, dbs = d1\<rparr>, None))
             else Some (w\<lparr>dbs := d1\<rparr>, None)))"

section \<open>Package repository: read operations\<close>

text \<open>
  A read returns the world it leaves and \<open>(result, cacheHit, cacheStored, error)\<close>. Each read
  derives its context with \<open>withQueryTimeout\<close> and returns at once when that context
  already carries an error. The cache check comes next: a hit ends the call, and an error
  of the cache helper, key-not-found or any other, goes on to the database, which is
  queried under the derived context.
\<close>

definition FindByID :: "('h, 'w, 'e) env \<Rightarrow> 'h GenericRepository \<Rightarrow> go_context \<Rightarrow> go_value \<Rightarrow> 'w world \<Rightarrow> 'w world \<times> 'e option \<times> bool \<times> bool \<times> repo_error option" where
  "FindByID env r ctx ident w =
     (if ident = GoNil then (w, None, False, False, Some IdNil)
      else
        (let ctx1 = withQueryTimeout env r ctx in
         case ctx_err ctx1 of
           Some e \<Rightarrow> (w, None, False, False, Some (ContextCancelled e))
         | None \<Rightarrow>
             (let cacheKey = generateCacheKey r ''find_by_id'' (fmt_v ident) in
              case (if redis r then
                      (case GetValue env (mgr w) cacheKey of
                         (m1, Inr entity) \<Rightarrow> Inl (w\<lparr>mgr := m1\<rparr>, entity)
                       | (m1, Inl err) \<Rightarrow> if \<not> IsKeyNotFound err then Inr (w\<lparr>mgr := m1\<rparr>) else Inr (w\<lparr>mgr := m1\<rparr>))
                    else Inr w) of
                Inl (w1, entity) \<Rightarrow> (w1, Some entity, True, False, None)
              | Inr w1 \<Rightarrow>
                  (case db_First env (h_WithContext env (db r) ctx1) ident (dbs w1) of
                     (d1, Inl err) \<Rightarrow>
                       if err = ErrRecordNotFound then (w1\<lparr>dbs := d1\<rparr>, None, False, False, None)
                       else (w1\<lparr>dbs := d1\<rparr>, None, False, False, Some (DatabaseError err))
                   | (d1, Inr entity) \<Rightarrow>
                       if redis r then
                         (case SetValue env (mgr w1) cacheKey entity of
                            (m2, err) \<Rightarrow> (\<lparr>mgr = m2, dbs = d1\<rparr>, Some entity, False, err = None, None))
                       else (w1\<lparr>dbs := d1\<rparr>, Some entity, False, False, None)))))"

definition FindAll :: "('h, 'w, 'e) env \<Rightarrow> 'h GenericRepository \<Rightarrow> go_context \<Rightarrow> 'w world \<Rightarrow> 'w world \<times> 'e list option \<times> bool \<times> bool \<times> repo_error option" where
  "FindAll env r ctx w =
     (let ctx1 = withQueryTimeout env r ctx in
      case ctx_err ctx1 of
        Some e \<Rightarrow> (w, None, False, False, Some (ContextCancelled e))
      | None \<Rightarrow>
          (let cacheKey = generateCacheKey r ''find_all'' [] in
           case (if redis r then
                   (case GetLargeValue env (mgr w) cacheKey of
                      (m1, Inr entities) \<Rightarrow> Inl (w\<lparr>mgr := m1\<rparr>, entities)
                    | (m1, Inl err) \<Rightarrow> if \<not> IsKeyNotFound err then Inr (w\<lparr>mgr := m1\<rparr>) else Inr (w\<lparr>mgr := m1\<rparr>))
                 else Inr w) of
             Inl (w1, entities) \<Rightarrow> (w1, Some entities, True, False, None)
           | Inr w1 \<Rightarrow>
               (case db_Find env (h_WithContext env (db r) ctx1) (dbs w1) of
                  (d1, Inl err) \<Rightarrow> (w1\<lparr>dbs := d1\<rparr>, None, False, False, Some (DatabaseError err))
                | (d1, Inr entities) \<Rightarrow>
                    if redis r then
                      (case SetLargeValue env (mgr w1) cacheKey entities of
                         (m2, err) \<Rightarrow> (\<lparr>mgr = m2, dbs = d1\<rparr>, Some entities, False, err = None, None))
                    else (w1\<lparr>dbs := d1\<rparr>, Some entities, False, False, None))))"

text \<open>\<open>dependencies[key] = append(dependencies[key], v)\<close> on the map kept as a list of entries.\<close>

fun appendDependency :: "(string \<times> go_value list) list \<Rightarrow> string \<Rightarrow> go_value \<Rightarrow> (string \<times> go_value list) list" where
  "appendDependency [] k v = [(k, [v])]"
| "appendDependency ((k', vs) # rest) k v =
     (if k' = k then (k', vs @ [v]) # rest else (k', vs) # appendDependency rest k v)"

fun relatedDependencies :: "(string \<times> go_value list) list \<Rightarrow> RelatedEntity list \<Rightarrow> (string \<times> go_value list) list" where
  "relatedDependencies deps [] = deps"
| "relatedDependencies deps (related # rest) =
     (if EntityID related \<noteq> GoNil
      then relatedDependencies (appendDependency deps (EntityType related) (EntityID related)) rest
      else relatedDependencies deps rest)"

fun relationshipDependencies :: "(string \<times> go_value list) list \<Rightarrow> (string \<times> RelatedEntity list) list \<Rightarrow> (string \<times> go_value list) list" where
  "relationshipDependencies deps [] = deps"
| "relationshipDependencies deps ((kind, relatedEntities) # rest) =
     relationshipDependencies (relatedDependencies deps relatedEntities) rest"

fun entityDependencies :: "('h, 'w, 'e) env \<Rightarrow> 'h GenericRepository \<Rightarrow> (string \<times> go_value list) list \<Rightarrow> 'e list \<Rightarrow> (string \<times> go_value list) list" where
  "entityDependencies env r deps [] = deps"
| "entityDependencies env r deps (entity # rest) =
     (if is_zero env entity then entityDependencies env r deps rest
      else
        (let pkValue = GetPrimaryKeyValue env entity;
             deps1 = (if pkValue \<noteq> GoNil then appendDependency deps (tableName r) pkValue else deps);
             deps2 = (case GetRelationships env entity of
                        Some rels \<Rightarrow> relationshipDependencies deps1 rels
                      | None \<Rightarrow>
                          if pkValue \<noteq> GoNil
                          then relationshipDependencies deps1 (extractRelationshipsFromEntity env entity pkValue)
                          else deps1)
         in entityDependencies env r deps2 rest))"

definition extractDependenciesFromEntities :: "('h, 'w, 'e) env \<Rightarrow> 'h GenericRepository \<Rightarrow> 'e list \<Rightarrow> (string \<times> go_value list) list" where
  "extractDependenciesFromEntities env r entities =
     (if entities = [] then [] else entityDependencies env r [] entities)"

definition marshalEntities :: "('h, 'w, 'e) env \<Rightarrow> 'e list \<Rightarrow> string + bytes" where
  "marshalEntities env entities = json_Marshal env entities"

definition FindWhere :: "('h, 'w, 'e) env \<Rightarrow> 'h GenericRepository \<Rightarrow> go_context \<Rightarrow> query \<Rightarrow> go_value list \<Rightarrow> 'w world \<Rightarrow> 'w world \<times> 'e list option \<times> bool \<times> bool \<times> repo_error option" where
  "FindWhere env r ctx q args w =
     (let ctx1 = withQueryTimeout env r ctx in
      case ctx_err ctx1 of
        Some e \<Rightarrow> (w, None, False, False, Some (ContextCancelled e))
      | None \<Rightarrow>
          (let shouldCache = (q \<noteq> QGormDB);
               cacheKey = (if shouldCache then generateCacheKeyFromQuery env r ''find_where'' q args else [])
           in
           case (if redis r \<and> shouldCache then
                   (case GetLargeValue env (mgr w) cacheKey of
                      (m1, Inr entities) \<Rightarrow> Inl (w\<lparr>mgr := m1\<rparr>, entities)
                    | (m1, Inl err) \<Rightarrow> if \<not> IsKeyNotFound err then Inr (w\<lparr>mgr := m1\<rparr>) else Inr (w\<lparr>mgr := m1\<rparr>))
                 else Inr w) of
             Inl (w1, entities) \<Rightarrow> (w1, Some entities, True, False, None)
           | Inr w1 \<Rightarrow>
               (case db_WhereFind env (h_WithContext env (db r) ctx1) q args (dbs w1) of
                  (d1, Inl err) \<Rightarrow> (w1\<lparr>dbs := d1\<rparr>, None, False, False, Some (DatabaseError err))
                | (d1, Inr entities) \<Rightarrow>
                    if redis r \<and> shouldCache then
                      (case marshalEntities env entities of
                         Inl _ \<Rightarrow> (w1\<lparr>dbs := d1\<rparr>, Some entities, False, False, None)
                       | Inr data \<Rightarrow>
                           (case SetLargeWithDependencies (gzip_lib env) (mgr w1) cacheKey data
                                   (extractDependenciesFromEntities env r entities) of
                              (m2, err) \<Rightarrow> (\<lparr>mgr = m2, dbs = d1\<rparr>, Some entities, False, err = None, None)))
                    else (w1\<lparr>dbs := d1\<rparr>, Some entities, False, False, None))))"

definition First :: "('h, 'w, 'e) env \<Rightarrow> 'h GenericRepository \<Rightarrow> go_context \<Rightarrow> query \<Rightarrow> go_value list \<Rightarrow> 'w world \<Rightarrow> 'w world \<times> 'e option \<times> bool \<times> bool \<times> repo_error option" where
  "First env r ctx q args w =
     (let ctx1 = withQueryTimeout env r ctx in
      case ctx_err ctx1 of
        Some e \<Rightarrow> (w, None, False, False, Some (ContextCancelled e))
      | None \<Rightarrow>
          (let shouldCache = (q \<noteq> QGormDB);
               cacheKey = (if shouldCache then generateCacheKeyFromQuery env r ''first'' q args else [])
           in
           case (if redis r \<and> shouldCache then
                   (case GetValue env (mgr w) cacheKey of
                      (m1, Inr entity) \<Rightarrow> Inl (w\<lparr>mgr := m1\<rparr>, entity)
                    | (m1, Inl err) \<Rightarrow> if \<not> IsKeyNotFound err then Inr (w\<lparr>mgr := m1\<rparr>) else Inr (w\<lparr>mgr := m1\<rparr>))
                 else Inr w) of
             Inl (w1, entity) \<Rightarrow> (w1, Some entity, True, False, None)
           | Inr w1 \<Rightarrow>
               (case db_WhereFirst env (h_WithContext env (db r) ctx1) q args (dbs w1) of
                  (d1, Inl err) \<Rightarrow>
                    if err = ErrRecordNotFound then (w1\<lparr>dbs := d1\<rparr>, None, False, False, None)
                    else (w1\<lparr>dbs := d1\<rparr>, None, False, False, Some (DatabaseError err))
                | (d1, Inr entity) \<Rightarrow>
                    if redis r \<and> shouldCache then
                      (case SetValue env (mgr w1) cacheKey entity of
                         (m2, err) \<Rightarrow> (\<lparr>mgr = m2, dbs = d1\<rparr>, Some entity, False, err = None, None))
                    else (w1\<lparr>dbs := d1\<rparr>, Some entity, False, False, None))))"

definition Count :: "('h, 'w, 'e) env \<Rightarrow> 'h GenericRepository \<Rightarrow> go_context \<Rightarrow> 'w world \<Rightarrow> 'w world \<times> int \<times> bool \<times> bool \<times> repo_error option" where
  "Count env r ctx w =
     (let ctx1 = withQueryTimeout env r ctx in
      case ctx_err ctx1 of
        Some e \<Rightarrow> (w, 0, False, False, Some (ContextCancelled e))
      | None \<Rightarrow>
          (let cacheKey = generateCacheKey r ''count'' [] in
           case (if redis r then
                   (case GetValueCount env (mgr w) cacheKey of
                      (m1, Inr n) \<Rightarrow> Inl (w\<lparr>mgr := m1\<rparr>, n)
                    | (m1, Inl err) \<Rightarrow> if \<not> IsKeyNotFound err then Inr (w\<lparr>mgr := m1\<rparr>) else Inr (w\<lparr>mgr := m1\<rparr>))
                 else Inr w) of
             Inl (w1, n) \<Rightarrow> (w1, n, True, False, None)
           | Inr w1 \<Rightarrow>
               (case db_Count env (h_WithContext env (db r) ctx1) (dbs w1) of
                  (d1, Inl err) \<Rightarrow> (w1\<lparr>dbs := d1\<rparr>, 0, False, False, Some (DatabaseError err))
                | (d1, Inr n) \<Rightarrow>
                    if redis r then
                      (case SetValueCount env (mgr w1) cacheKey n of
                         (m2, err) \<Rightarrow> (\<lparr>mgr = m2, dbs = d1\<rparr>, n, False, err = None, None))
                    else (w1\<lparr>dbs := d1\<rparr>, n, False, False, None))))"

definition repo_Exists :: "('h, 'w, 'e) env \<Rightarrow> 'h GenericRepository \<Rightarrow> go_context \<Rightarrow> go_value \<Rightarrow> 'w world \<Rightarrow> 'w world \<times> bool \<times> bool \<times> bool \<times> repo_error option" where
  "repo_Exists env r ctx ident w =
     (case FindByID env r ctx ident w of
        (w1, entity, cacheHit, cacheStored, Some err) \<Rightarrow> (w1, False, False, False, Some err)
      | (w1, entity, cacheHit, cacheStored, None) \<Rightarrow> (w1, entity \<noteq> None, cacheHit, cacheStored, None))"

section \<open>Package repository: chainable query methods\<close>

text \<open>
  The receiver is a pointer. Repositories live in a heap, a list addressed by position;
  \<open>&newRepo\<close> is a fresh cell at its end. A nil receiver (\<open>None\<close>) makes \<open>*r\<close> panic, which is
  the result \<open>None\<close>. gorm's chain methods are taken as functions from handle to handle.
\<close>

definition deref :: "'a list \<Rightarrow> nat option \<Rightarrow> 'a option" where
  "deref heap p = (case p of None \<Rightarrow> None | Some a \<Rightarrow> if a < length heap then Some (heap ! a) else None)"

definition Preload :: "('h, 'w, 'e) env \<Rightarrow> 'h GenericRepository list \<Rightarrow> nat option \<Rightarrow> string list \<Rightarrow> ('h GenericRepository list \<times> nat option) option" where
  "Preload env heap r associations =
     (case deref heap r of
        None \<Rightarrow> None
      | Some newRepo \<Rightarrow>
          Some (heap @ [newRepo\<lparr>db := foldl (h_Preload env) (db newRepo) associations\<rparr>], Some (length heap)))"

definition Joins :: "('h, 'w, 'e) env \<Rightarrow> 'h GenericRepository list \<Rightarrow> nat option \<Rightarrow> string \<Rightarrow> go_value list \<Rightarrow> ('h GenericRepository list \<times> nat option) option" where
  "Joins env heap r q args =
     (case deref heap r of
        None \<Rightarrow> None
      | Some newRepo \<Rightarrow>
          Some (heap @ [newRepo\<lparr>db := h_Joins env (db newRepo) q args\<rparr>], Some (length heap)))"

definition Order :: "('h, 'w, 'e) env \<Rightarrow> 'h GenericRepository list \<Rightarrow> nat option \<Rightarrow> go_value \<Rightarrow> ('h GenericRepository list \<times> nat option) option" where
  "Order env heap r v =
     (case deref heap r of
        None \<Rightarrow> None
      | Some newRepo \<Rightarrow>
          Some (heap @ [newRepo\<lparr>db := h_Order env (db newRepo) v\<rparr>], Some (length heap)))"

definition Limit :: "('h, 'w, 'e) env \<Rightarrow> 'h GenericRepository list \<Rightarrow> nat option \<Rightarrow> int \<Rightarrow> ('h GenericRepository list \<times> nat option) option" where
  "Limit env heap r limit =
     (let limit1 = (if limit < 0 then 0 else limit) in
      case deref heap r of
        None \<Rightarrow> None
      | Some newRepo \<Rightarrow>
          Some (heap @ [newRepo\<lparr>db := h_Limit env (db newRepo) limit1\<rparr>], Some (length heap)))"

definition Offset :: "('h, 'w, 'e) env \<Rightarrow> 'h GenericRepository list \<Rightarrow> nat option \<Rightarrow> int \<Rightarrow> ('h GenericRepository list \<times> nat option) option" where
  "Offset env heap r offset =
     (let offset1 = (if offset < 0 then 0 else offset) in
      case deref heap r of
        None \<Rightarrow> None
      | Some newRepo \<Rightarrow>
          Some (heap @ [newRepo\<lparr>db := h_Offset env (db newRepo) offset1\<rparr>], Some (length heap)))"

section \<open>Predicates used in the statements\<close>

definition healthy :: "Manager \<Rightarrow> bool" where
  "healthy m = (case client m of None \<Rightarrow> False | Some c \<Rightarrow> faults c = [])"

definition store :: "Manager \<Rightarrow> string \<Rightarrow> entry option" where
  "store m = (case client m of None \<Rightarrow> (\<lambda>k. None) | Some c \<Rightarrow> keyspace c)"

definition is_CmdSet :: "cmd \<Rightarrow> bool" where
  "is_CmdSet x = (case x of CmdSet _ _ _ \<Rightarrow> True | _ \<Rightarrow> False)"

definition maxValueSize :: "Manager \<Rightarrow> int" where
  "maxValueSize m = fst (getLargeValueConfig m)"

definition stored :: "Manager \<Rightarrow> string \<Rightarrow> rvalue option" where
  "stored m k = map_option payload (store m k)"

text \<open>\<open>steady m m'\<close>: configuration and metrics are those of \<open>m\<close>, and the backend still answers.\<close>

definition steady :: "Manager \<Rightarrow> Manager \<Rightarrow> bool" where
  "steady m m' = (config m' = config m \<and> metrics m' = metrics m \<and> healthy m')"

text \<open>\<open>linked d ks k\<close>: key \<open>k\<close> holds a set whose time to live is \<open>d\<close> milliseconds.\<close>

definition linked :: "int \<Rightarrow> (string \<Rightarrow> entry option) \<Rightarrow> string \<Rightarrow> bool" where
  "linked d ks k = (case ks k of
                      None \<Rightarrow> False
                    | Some e \<Rightarrow> expiry e = Some d \<and> (case payload e of RSet _ \<Rightarrow> True | RString _ \<Rightarrow> False))"

definition holds_string :: "(string \<Rightarrow> entry option) \<Rightarrow> string \<Rightarrow> bool" where
  "holds_string ks k = (case ks k of
                          None \<Rightarrow> False
                        | Some e \<Rightarrow> (case payload e of RString _ \<Rightarrow> True | RSet _ \<Rightarrow> False))"

text \<open>What a read reports to its caller, without the world and the \<open>cacheStored\<close> flag.\<close>

definition outcome :: "'s \<times> 'a \<times> bool \<times> bool \<times> repo_error option \<Rightarrow> 'a \<times> bool \<times> repo_error option" where
  "outcome x = (case x of (w, res, cacheHit, cacheStored, err) \<Rightarrow> (res, cacheHit, err))"

section \<open>Example inputs\<close>

text \<open>
  A stand-in for gzip in the examples: it writes a run of eight \<open>a\<close> as three bytes and
  any other input with a one-byte header, and reads both forms back.
\<close>

definition toy_gzip :: gzip where
  "toy_gzip =
     \<lparr>gzip_write = (\<lambda>d. Inr (if d = ''aaaaaaaa'' then ''#8a'' else CHR ''='' # d)),
      gzip_read = (\<lambda>z. if z = ''#8a'' then Inr ''aaaaaaaa''
                        else (case z of
                                [] \<Rightarrow> Inl ''unexpected EOF''
                              | c # d \<Rightarrow> if c = CHR ''='' then Inr d else Inl ''gzip: invalid header''))\<rparr>"

definition zero_metrics :: Metrics where
  "zero_metrics =
     \<lparr>cacheHits = 0, cacheMisses = 0, cacheErrors = 0, getOperations = 0, setOperations = 0,
      deleteOperations = 0, compressionSaves = 0, chunkedOperations = 0, invalidationCount = 0,
      dependencyCount = 0\<rparr>"

definition empty_backend :: backend where
  "empty_backend = \<lparr>keyspace = (\<lambda>k. None), faults = [], issued = 0\<rparr>"

definition small_config :: Config where
  "small_config =
     \<lparr>Enabled = True, DefaultTTL = 10000000000,
      LargeValue = \<lparr>MaxValueSize = 12, ChunkSize = 4, CompressThreshold = 2,
                    EnableCompression = True, EnableChunking = True\<rparr>\<rparr>"

definition small_manager :: Manager where
  "small_manager = \<lparr>config = small_config, client = Some empty_backend, metrics = zero_metrics\<rparr>"

definition str_entry :: "bytes \<Rightarrow> entry" where
  "str_entry v = \<lparr>payload = RString v, expiry = Some 10000\<rparr>"




text \<open>A manager whose default time to live is 750 milliseconds.\<close>

definition brief_manager :: Manager where
  "brief_manager = small_manager\<lparr>config := small_config\<lparr>DefaultTTL := 750000000\<rparr>\<rparr>"

text \<open>A backend that answers its first round trip and fails the second.\<close>

definition flaky_manager :: Manager where
  "flaky_manager = small_manager\<lparr>client := Some (empty_backend\<lparr>faults := [False, True]\<rparr>)\<rparr>"

text \<open>One cached query result \<open>q\<close> that depends on user 1.\<close>

definition deps_manager :: Manager where
  "deps_manager =
     small_manager\<lparr>client := Some (empty_backend\<lparr>keyspace :=
        (\<lambda>k. None)(''q'' \<mapsto> str_entry ''rows'',
                   ''sql4go:deps:users:1'' \<mapsto> \<lparr>payload = RSet [''q''], expiry = Some 20000\<rparr>)\<rparr>)\<rparr>"

definition demo_repo :: "string list GenericRepository" where
  "demo_repo =
     \<lparr>db = [], dbManager = Some 30000000000, redis = True, entityType = ''User'',
      tableName = ''users'', primaryKey = ''id'', dbName = ''shop''\<rparr>"

text \<open>
  Example collaborators: a database that answers every read with the row \<open>alice\<close> and
  refuses every write, a cache helper whose backend is unreachable, a query handle that
  lists the clauses added to it, and a clock on which a timeout of less than a microsecond
  has run out by the time the context is looked at.
\<close>

definition demo_env :: "(string list, nat, string) env" where
  "demo_env =
     \<lparr>db_First = (\<lambda>h ident n. (Suc n, Inr ''alice'')),
      db_Find = (\<lambda>h n. (Suc n, Inr [''alice''])),
      db_WhereFind = (\<lambda>h q args n. (Suc n, Inr [''alice''])),
      db_WhereFirst = (\<lambda>h q args n. (Suc n, Inr ''alice'')),
      db_Count = (\<lambda>h n. (Suc n, Inr 1)),
      db_Create = (\<lambda>h e n. (Suc n, Inl (DbError ''duplicate entry''))),
      db_Save = (\<lambda>h e n. (Suc n, Inl (DbError ''deadlock''))),
      db_Delete = (\<lambda>h e n. (Suc n, Some (DbError ''row is locked''))),
      db_CreateBatch = (\<lambda>h es n. (Suc n, Inl (DbError ''duplicate entry''))),
      db_SaveBatch = (\<lambda>h es n. (Suc n, Inl (DbError ''deadlock''))),
      WithTimeout = (\<lambda>ctx d. if ctx_err ctx = None \<and> sint d < 1000
                           then ctx\<lparr>ctx_err := Some ''context deadline exceeded''\<rparr> else ctx),
      h_WithContext = (\<lambda>h ctx. h),
      h_Preload = (\<lambda>h a. h @ [''PRELOAD '' @ a]),
      h_Joins = (\<lambda>h q args. h @ [''JOIN '' @ q]),
      h_Order = (\<lambda>h v. h @ [''ORDER BY '' @ fmt_v v]),
      h_Limit = (\<lambda>h n. h @ [''LIMIT '' @ Itoa n]),
      h_Offset = (\<lambda>h n. h @ [''OFFSET '' @ Itoa n]),
      GetValue = (\<lambda>m k. (m, Inl (RedisGetError ConnError))),
      GetValueCount = (\<lambda>m k. (m, Inl (RedisGetError ConnError))),
      GetLargeValue = (\<lambda>m k. (m, Inl (BackendError ConnError))),
      SetValue = (\<lambda>m k e. (m, Some (BackendError ConnError))),
      SetValueCount = (\<lambda>m k n. (m, Some (BackendError ConnError))),
      SetLargeValue = (\<lambda>m k es. (m, Some (BackendError ConnError))),
      GetPrimaryKeyValue = GoString,
      GetRelationships = (\<lambda>e. None),
      extractRelationshipsFromEntity = (\<lambda>e pk. []),
      is_zero = (\<lambda>e. e = []),
      json_Marshal = (\<lambda>es. Inr (concat es)),
      json_Marshal_map = (\<lambda>mp. Inl ''unsupported type''),
      json_Marshal_args = (\<lambda>args. Inr (concat (map fmt_v args))),
      Sprint_map = (\<lambda>mp. concat (map fst mp)),
      Sprint_args = (\<lambda>args. concat (map fmt_v args)),
      Sum64String = (\<lambda>s. of_nat (length s)),
      gzip_lib = toy_gzip,
      scan_server = (\<lambda>ks cursor pattern n. ([], 0))\<rparr>"

definition demo_world :: "nat world" where
  "demo_world = \<lparr>mgr = small_manager, dbs = 0\<rparr>"

definition background :: go_context where
  "background = \<lparr>ctx_err = None\<rparr>"

text \<open>
  Modelled from the spec: \<open>GetLargeValue\<close> and \<open>SetLargeValue\<close> of package redis are not among
  the sources. The spec's value codec serializes a value and stores it through the
  large-value path, so in this example \<open>SetLargeValue\<close> is \<open>SetLarge\<close> of the serialized rows
  and \<open>GetLargeValue\<close> is \<open>GetLarge\<close> followed by deserialization. Rows are names, serialized
  with a comma between them. The table holds \<open>alice\<close> and \<open>bob\<close>, and the database honours a
  \<open>LIMIT 1\<close> clause on the query handle.
\<close>

definition join_rows :: "string list \<Rightarrow> bytes" where
  "join_rows es = (case es of [] \<Rightarrow> [] | e # rest \<Rightarrow> foldl (\<lambda>acc x. acc @ '','' @ x) e rest)"

definition cache_env :: "(string list, nat, string) env" where
  "cache_env =
     demo_env\<lparr>db_Find := (\<lambda>h n. (Suc n, Inr (if ''LIMIT 1'' \<in> set h then [''alice''] else [''alice'', ''bob'']))),
              GetLargeValue := (\<lambda>m k. case GetLarge toy_gzip m k of
                                         (m1, Inl e) \<Rightarrow> (m1, Inl e)
                                       | (m1, Inr data) \<Rightarrow> (m1, Inr (Split data CHR '',''))),
              SetLargeValue := (\<lambda>m k es. SetLarge toy_gzip m k (join_rows es))\<rparr>"


section \<open>Facts about strings, numbers and chunk keys\<close>

lemma of_char_digit_char: "d < 10 \<Longrightarrow> (of_char (digit_char d) :: nat) = 48 + d"
  by (simp add: digit_char_def)

lemma is_digit_digit_char: "d < 10 \<Longrightarrow> is_digit (digit_char d)"
  by (simp add: is_digit_def of_char_digit_char)

lemma digits_value_snoc: "digits_value (ds @ [c]) = 10 * digits_value ds + (of_char c - 48)"
  by (simp add: digits_value_def)

lemma digits_value_Itoa_nat: "digits_value (Itoa_nat n) = n"
proof (induction n rule: Itoa_nat.induct)
  case (1 n)
  show ?case
  proof (cases "n < 10")
    case True
    then show ?thesis
      by (subst Itoa_nat.simps) (simp add: digits_value_def of_char_digit_char)
  next
    case False
    with 1 have "digits_value (Itoa_nat (n div 10)) = n div 10" by simp
    with False show ?thesis
      by (subst Itoa_nat.simps) (simp add: digits_value_snoc of_char_digit_char)
  qed
qed

lemma Itoa_nat_digits: "list_all is_digit (Itoa_nat n)"
proof (induction n rule: Itoa_nat.induct)
  case (1 n)
  then show ?case
    by (subst Itoa_nat.simps) (simp add: is_digit_digit_char)
qed

lemma Itoa_nat_nonempty: "Itoa_nat n \<noteq> []"
  by (subst Itoa_nat.simps) simp

lemma Itoa_nat_inj: "Itoa_nat a = Itoa_nat b \<Longrightarrow> a = b"
  by (metis digits_value_Itoa_nat)

lemma Itoa_nat_no_colon: "CHR '':'' \<notin> set (Itoa_nat n)"
proof
  assume "CHR '':'' \<in> set (Itoa_nat n)"
  with Itoa_nat_digits [of n] have "is_digit CHR '':''" by (simp add: list_all_iff)
  then show False by (simp add: is_digit_def)
qed

lemma Atoi_Itoa: "0 \<le> n \<Longrightarrow> n < 2 ^ 63 \<Longrightarrow> Atoi (Itoa n) = Some n"
proof -
  assume n: "0 \<le> n" "n < 2 ^ 63"
  obtain c cs where cs: "Itoa_nat (nat n) = c # cs"
    using Itoa_nat_nonempty [of "nat n"] by (cases "Itoa_nat (nat n)") auto
  have "is_digit c" using Itoa_nat_digits [of "nat n"] cs by simp
  then have c: "c \<noteq> CHR ''-''" "c \<noteq> CHR ''+''" by (auto simp: is_digit_def)
  have all: "list_all is_digit (c # cs)" using Itoa_nat_digits [of "nat n"] cs by simp
  have v: "digits_value (c # cs) = nat n" using digits_value_Itoa_nat [of "nat n"] cs by simp
  show ?thesis
    using n c all v by (simp add: Atoi_def Itoa_def cs Let_def)
qed

lemma chunkKey_inj: "0 \<le> i \<Longrightarrow> 0 \<le> j \<Longrightarrow> chunkKey key i = chunkKey key j \<Longrightarrow> i = j"
  by (auto simp: chunkKey_def Itoa_def dest!: Itoa_nat_inj)

lemma chunkKey_neq_meta: "chunkKey key i \<noteq> key @ cacheMetadataSuffix"
  by (simp add: chunkKey_def cacheMetadataSuffix_def cacheChunkPrefix_def)

lemma chunkKey_neq_key: "chunkKey key i \<noteq> key"
  by (simp add: chunkKey_def cacheChunkPrefix_def)

lemma meta_neq_key: "key @ cacheMetadataSuffix \<noteq> key"
  by (simp add: cacheMetadataSuffix_def)

lemma Split_no_sep: "sep \<notin> set s \<Longrightarrow> Split s sep = [s]"
  by (induction s) auto

lemma Split_append_sep: "sep \<notin> set a \<Longrightarrow> Split (a @ sep # b) sep = a # Split b sep"
  by (induction a) auto

lemma Split_chunked_meta:
  "Split (''chunked:'' @ FormatBool b @ '':'' @ Itoa_nat n) CHR '':'' = [''chunked'', FormatBool b, Itoa_nat n]"
  using Split_no_sep [OF Itoa_nat_no_colon, of n]
  by (cases b) (simp_all add: FormatBool_def)

lemma chunkCmds_eq:
  "chunkCmds key data cs d n i =
     map (\<lambda>j. CmdSet (chunkKey key j) (slice data (j * cs) (min (j * cs + cs) (int (length data)))) d) [i..n - 1]"
proof (induction key data cs d n i rule: chunkCmds.induct)
  case (1 key data chunkSize d chunkCount i)
  show ?case
  proof (cases "i < chunkCount")
    case True
    then have u: "[i..chunkCount - 1] = i # [i + 1..chunkCount - 1]"
      by (simp add: upto_rec1)
    from True 1 show ?thesis
      by (subst chunkCmds.simps) (simp add: u Let_def min_def)
  next
    case False
    then show ?thesis by (subst chunkCmds.simps) simp
  qed
qed

lemma chunkKeys_eq: "chunkKeys key n i = map (chunkKey key) [i..n - 1]"
proof (induction key n i rule: chunkKeys.induct)
  case (1 key chunkCount i)
  show ?case
  proof (cases "i < chunkCount")
    case True
    then have u: "[i..chunkCount - 1] = i # [i + 1..chunkCount - 1]"
      by (simp add: upto_rec1)
    from True 1 show ?thesis by (subst chunkKeys.simps) (simp add: u)
  next
    case False
    then show ?thesis by (subst chunkKeys.simps) simp
  qed
qed

section \<open>Commands on a backend that answers\<close>

lemma attempt_healthy: "faults c = [] \<Longrightarrow> attempt c = (c\<lparr>issued := Suc (issued c)\<rparr>, False)"
  by (simp add: attempt_def)

lemma run_cmds_sets_ok: "list_all is_CmdSet xs \<Longrightarrow> snd (run_cmds xs ks) = None"
  by (induction xs arbitrary: ks) (auto simp: is_CmdSet_def split: cmd.splits prod.splits)

lemma chunkCmds_sets: "list_all is_CmdSet (chunkCmds key data cs d n i)"
  by (simp add: chunkCmds_eq list_all_iff is_CmdSet_def)

lemma call_Exec_healthy:
  "client m = Some c \<Longrightarrow> faults c = [] \<Longrightarrow> cmds \<noteq> [] \<Longrightarrow>
   call m (client_Exec cmds) =
     (m\<lparr>client := Some (c\<lparr>issued := Suc (issued c), keyspace := fst (run_cmds cmds (keyspace c))\<rparr>)\<rparr>,
      result_of (snd (run_cmds cmds (keyspace c))))"
  by (simp add: call_def client_Exec_def attempt_healthy split: prod.splits)

lemma call_Do_healthy:
  "client m = Some c \<Longrightarrow> faults c = [] \<Longrightarrow>
   call m (client_Do x) =
     (m\<lparr>client := Some (c\<lparr>issued := Suc (issued c), keyspace := fst (run_cmd x (keyspace c))\<rparr>)\<rparr>,
      result_of (snd (run_cmd x (keyspace c))))"
  by (simp add: call_def client_Do_def attempt_healthy split: prod.splits)

lemma call_Get_healthy:
  "client m = Some c \<Longrightarrow> faults c = [] \<Longrightarrow>
   call m (client_Get k) =
     (m\<lparr>client := Some (c\<lparr>issued := Suc (issued c)\<rparr>)\<rparr>,
      (case keyspace c k of
         None \<Rightarrow> Inl RedisNil
       | Some e \<Rightarrow> (case payload e of RString v \<Rightarrow> Inr v | RSet _ \<Rightarrow> Inl WrongType)))"
  by (simp add: call_def client_Get_def attempt_healthy split: option.splits rvalue.splits)

lemma call_Del_healthy:
  "client m = Some c \<Longrightarrow> faults c = [] \<Longrightarrow>
   call m (client_Del ks) =
     (m\<lparr>client := Some (c\<lparr>issued := Suc (issued c),
                             keyspace := (\<lambda>k. if k \<in> set ks then None else keyspace c k)\<rparr>)\<rparr>, Inr ())"
  by (simp add: call_def client_Del_def attempt_healthy cong: if_cong)

lemma call_Exists_healthy:
  "client m = Some c \<Longrightarrow> faults c = [] \<Longrightarrow>
   call m (client_Exists k) = (m\<lparr>client := Some (c\<lparr>issued := Suc (issued c)\<rparr>)\<rparr>, Inr (keyspace c k \<noteq> None))"
  by (simp add: call_def client_Exists_def attempt_healthy)

lemma call_SMembers_healthy:
  "client m = Some c \<Longrightarrow> faults c = [] \<Longrightarrow>
   call m (client_SMembers k) =
     (m\<lparr>client := Some (c\<lparr>issued := Suc (issued c)\<rparr>)\<rparr>,
      (case keyspace c k of
         None \<Rightarrow> Inr []
       | Some e \<Rightarrow> (case payload e of RSet xs \<Rightarrow> Inr xs | RString _ \<Rightarrow> Inl WrongType)))"
  by (simp add: call_def client_SMembers_def attempt_healthy split: option.splits rvalue.splits)

lemma checkClient_None: "checkClient m = None \<longleftrightarrow> Enabled (config m) \<and> client m \<noteq> None"
  by (simp add: checkClient_def)

section \<open>The size limit of SetLarge\<close>

lemma setChunked_healthy_ok:
  "client m = Some c \<Longrightarrow> faults c = [] \<Longrightarrow> snd (setChunked m key data compressed cs) = None"
  by (simp add: setChunked_def Let_def call_Exec_healthy run_cmds_sets_ok chunkCmds_sets
      result_of_def err_of_def is_CmdSet_def split: prod.splits)

lemma setWithMetadata_healthy_ok:
  "Enabled (config m) \<Longrightarrow> client m = Some c \<Longrightarrow> faults c = [] \<Longrightarrow> snd (setWithMetadata m key data compressed chunked) = None"
  by (simp add: setWithMetadata_def Let_def call_Exec_healthy call_Do_healthy Set_def checkClient_def
      result_of_def err_of_def split: prod.splits)

lemma SetLarge_too_large:
  "checkClient m = None \<Longrightarrow> maxValueSize m < int (length v) \<Longrightarrow>
   SetLarge gz m key v = (m, Some (ValueTooLarge (int (length v)) (maxValueSize m)))"
  by (cases "getLargeValueConfig m") (simp add: SetLarge_def maxValueSize_def)

lemma SetLarge_healthy_ok:
  assumes "checkClient m = None" "healthy m" "int (length v) \<le> maxValueSize m"
    and "\<forall>e. gzip_write gz v \<noteq> Inl e"
  shows "snd (SetLarge gz m key v) = None"
proof -
  from assms(1,2) obtain c where c: "Enabled (config m)" "client m = Some c" "faults c = []"
    by (auto simp: checkClient_None healthy_def split: option.splits)
  obtain maxSize chunkSize thr ec ech where cfg: "getLargeValueConfig m = (maxSize, chunkSize, thr, ec, ech)"
    by (cases "getLargeValueConfig m") auto
  from assms(3) cfg have le: "\<not> maxSize < int (length v)" by (simp add: maxValueSize_def)
  have ok: "snd (setChunked (m'\<lparr>metrics := x\<rparr>) key d b cs) = None"
    if "client m' = Some c" for m' x d b cs
    using that c(3) by (intro setChunked_healthy_ok [where c = c]) simp_all
  have ok2: "snd (setWithMetadata m' key d b False) = None"
    if "client m' = Some c" "Enabled (config m')" for m' d b
    using that c(3) by (intro setWithMetadata_healthy_ok [where c = c]) simp_all
  show ?thesis
    using assms(1,4) le c(1,2)
    by (auto simp: SetLarge_def cfg compressData_def ok ok2 split: sum.splits)
qed

lemma toy_gzip_roundtrip: "gzip_write toy_gzip d = Inr z \<Longrightarrow> gzip_read toy_gzip z = Inr d"
  by (auto simp: toy_gzip_def split: if_splits)

section \<open>What SetLarge writes\<close>

lemma run_cmds_sets_other:
  "k \<notin> f ` set js \<Longrightarrow> fst (run_cmds (map (\<lambda>j. CmdSet (f j) (g j) d) js) ks) k = ks k"
  by (induction js arbitrary: ks) (auto split: prod.splits)

lemma run_cmds_sets_lookup:
  "inj_on f (set js) \<Longrightarrow> j \<in> set js \<Longrightarrow>
   map_option payload (fst (run_cmds (map (\<lambda>j. CmdSet (f j) (g j) d) js) ks) (f j)) = Some (RString (g j))"
proof (induction js arbitrary: ks)
  case Nil
  then show ?case by simp
next
  case (Cons a js)
  obtain ks1 where ks1: "ks1 = fst (run_cmd (CmdSet (f a) (g a) d) ks)" by simp
  have step: "fst (run_cmds (map (\<lambda>j. CmdSet (f j) (g j) d) (a # js)) ks) =
              fst (run_cmds (map (\<lambda>j. CmdSet (f j) (g j) d) js) ks1)"
    by (simp add: ks1 split: prod.splits)
  show ?case
  proof (cases "j \<in> set js")
    case True
    from Cons.prems(1) have "inj_on f (set js)" by (simp add: inj_on_def)
    from Cons.IH [OF this True] step show ?thesis by simp
  next
    case False
    with Cons.prems(2) have ja: "j = a" by simp
    from Cons.prems(1) False ja have "f j \<notin> f ` set js" by (auto simp: inj_on_def)
    from run_cmds_sets_other [OF this] step ja ks1 show ?thesis by simp
  qed
qed

lemma store_client [simp]: "store (m\<lparr>client := Some c\<rparr>) = keyspace c"
  by (simp add: store_def)

lemma store_metrics [simp]: "store (m\<lparr>metrics := x\<rparr>) = store m"
  by (simp add: store_def)

lemma store_Some: "client m = Some c \<Longrightarrow> store m = keyspace c"
  by (simp add: store_def)

lemma chunkKey_inj_on: "inj_on (chunkKey key) (set [0..n])"
  by (rule inj_onI) (auto dest: chunkKey_inj)

lemma setChunked_store:
  assumes "client m = Some c" "faults c = []"
  shows "store (fst (setChunked m key data b cs)) =
         fst (run_cmds (CmdSet (key @ cacheMetadataSuffix)
                          (''chunked:'' @ FormatBool b @ '':'' @ Itoa ((int (length data) + cs - 1) div cs))
                          (DefaultTTL (config m))
                        # chunkCmds key data cs (DefaultTTL (config m)) ((int (length data) + cs - 1) div cs) 0)
                  (keyspace c))"
  using assms by (simp add: setChunked_def Let_def call_Exec_healthy split: prod.splits)

lemma setChunked_meta:
  assumes "client m = Some c" "faults c = []"
  shows "stored (fst (setChunked m key data b cs)) (key @ cacheMetadataSuffix) =
         Some (RString (''chunked:'' @ FormatBool b @ '':'' @ Itoa ((int (length data) + cs - 1) div cs)))"
proof -
  have "key @ cacheMetadataSuffix \<notin> chunkKey key ` set js" for js
    by (metis chunkKey_neq_meta imageE)
  from run_cmds_sets_other [OF this] show ?thesis
    by (simp add: stored_def setChunked_store [OF assms] chunkCmds_eq split: prod.splits)
qed

lemma setChunked_chunk:
  assumes "client m = Some c" "faults c = []" "0 \<le> i" "i < (int (length data) + cs - 1) div cs"
  shows "stored (fst (setChunked m key data b cs)) (chunkKey key i) =
         Some (RString (slice data (i * cs) (min (i * cs + cs) (int (length data)))))"
proof -
  let ?n = "(int (length data) + cs - 1) div cs"
  from assms(3,4) have mem: "i \<in> set [0..?n - 1]" by simp
  have neq: "chunkKey key i \<noteq> key @ cacheMetadataSuffix" by (rule chunkKey_neq_meta)
  from run_cmds_sets_lookup [OF chunkKey_inj_on mem, where g = "\<lambda>j. slice data (j * cs) (min (j * cs + cs) (int (length data)))"]
  show ?thesis
    by (simp add: stored_def setChunked_store [OF assms(1,2)] chunkCmds_eq split: prod.splits)
qed

lemma setWithMetadata_compressed_store:
  assumes "client m = Some c" "faults c = []"
  shows "stored (fst (setWithMetadata m key data True ch)) key = Some (RString data)"
    and "stored (fst (setWithMetadata m key data True ch)) (key @ cacheMetadataSuffix) = Some (RString ''single:true:1'')"
  using assms meta_neq_key [of key]
  by (simp_all add: setWithMetadata_def Let_def call_Exec_healthy stored_def FormatBool_def split: prod.splits)

lemma setWithMetadata_plain_store:
  assumes "Enabled (config m)" "client m = Some c" "faults c = []"
  shows "stored (fst (setWithMetadata m key data False ch)) key = Some (RString data)"
    and "k \<noteq> key \<Longrightarrow> store (fst (setWithMetadata m key data False ch)) k = store m k"
  using assms
  by (simp_all add: setWithMetadata_def Set_def checkClient_def call_Do_healthy stored_def store_Some
      split: prod.splits)

lemma small_manager_cfg: "getLargeValueConfig small_manager = (12, 4, 2, True, True)"
  by (simp add: getLargeValueConfig_def small_manager_def small_config_def)

lemma small_manager_ok: "checkClient small_manager = None" "healthy small_manager"
  by (simp_all add: checkClient_def healthy_def small_manager_def small_config_def empty_backend_def)

section \<open>Reading large values back\<close>



lemma getChunks_healthy:
  "client m = Some c \<Longrightarrow> faults c = [] \<Longrightarrow>
   (\<And>j. i \<le> j \<Longrightarrow> j < n \<Longrightarrow> map_option payload (keyspace c (chunkKey key j)) = Some (RString (f j))) \<Longrightarrow>
   snd (getChunks m key n i acc) = Inr (acc @ map f [i..n - 1])"
proof (induction m key n i acc arbitrary: c rule: getChunks.induct)
  case (1 m key chunkCount i chunks)
  show ?case
  proof (cases "i < chunkCount")
    case True
    then have u: "[i..chunkCount - 1] = i # [i + 1..chunkCount - 1]" by (simp add: upto_rec1)
    from "1.prems"(3) [of i] True
    have here: "map_option payload (keyspace c (chunkKey key i)) = Some (RString (f i))" by simp
    let ?c1 = "c\<lparr>issued := Suc (issued c)\<rparr>"
    have g: "call m (client_Get (chunkKey key i)) = (m\<lparr>client := Some ?c1\<rparr>, Inr (f i))"
      using here by (auto simp: call_Get_healthy [OF "1.prems"(1,2)] split: option.splits rvalue.splits)
    have "snd (getChunks (m\<lparr>client := Some ?c1\<rparr>) key chunkCount (i + 1) (chunks @ [f i]))
          = Inr ((chunks @ [f i]) @ map f [i + 1..chunkCount - 1])"
      using "1.prems"(2,3) by (intro "1.IH" [OF True g [symmetric] refl, where c = ?c1]) simp_all
    with True g u show ?thesis
      by (subst getChunks.simps) simp
  next
    case False
    then show ?thesis by (subst getChunks.simps) simp
  qed
qed

lemma Split_chunked_general:
  "CHR '':'' \<notin> set flag \<Longrightarrow> CHR '':'' \<notin> set count \<Longrightarrow>
   Split (''chunked:'' @ flag @ '':'' @ count) CHR '':'' = [''chunked'', flag, count]"
  using Split_append_sep [of "CHR '':''" "''chunked''" "flag @ '':'' @ count"]
    Split_append_sep [of "CHR '':''" flag count] Split_no_sep [of "CHR '':''" count]
  by simp

lemma HasPrefix_append [simp]: "HasPrefix (p @ s) p"
  by (simp add: HasPrefix_def)




lemma GetLarge_chunked_healthy:
  assumes "checkClient m = None" "healthy m"
    and "stored m (key @ cacheMetadataSuffix) = Some (RString (''chunked:'' @ flag @ '':'' @ count))"
    and "CHR '':'' \<notin> set flag" "CHR '':'' \<notin> set count" "Atoi count = Some n"
    and "\<And>i. 0 \<le> i \<Longrightarrow> i < n \<Longrightarrow> stored m (chunkKey key i) = Some (RString (chunk i))"
  shows "snd (GetLarge gz m key) =
         (if flag = ''true'' then decompressData gz (concat (map chunk [0..n - 1]))
          else Inr (concat (map chunk [0..n - 1])))"
proof -
  from assms(1,2) obtain c where c: "client m = Some c" "faults c = []"
    by (auto simp: checkClient_None healthy_def split: option.splits)
  define c1 where "c1 = c\<lparr>issued := Suc (issued c)\<rparr>"
  define m1 where "m1 = m\<lparr>client := Some c1\<rparr>"
  define c2 where "c2 = c1\<lparr>issued := Suc (issued c1)\<rparr>"
  define m2 where "m2 = m1\<lparr>client := Some c2\<rparr>"
  have meta: "keyspace c (key @ cacheMetadataSuffix) \<noteq> None"
    "map_option payload (keyspace c (key @ cacheMetadataSuffix)) = Some (RString (''chunked:'' @ flag @ '':'' @ count))"
    using assms(3) c by (auto simp: stored_def store_Some)
  have i1: "isChunkedValue m key = (m1, Inr True)"
    using meta HasPrefix_append [of "''chunked:''" "flag @ '':'' @ count"]
    by (auto simp: isChunkedValue_def call_Get_healthy [OF c] m1_def c1_def
        simp del: HasPrefix_append split: option.splits rvalue.splits)
  have cl1: "client m1 = Some c1" "faults c1 = []" by (simp_all add: m1_def c1_def c)
  have g1: "call m1 (client_Get (key @ cacheMetadataSuffix)) = (m2, Inr (''chunked:'' @ flag @ '':'' @ count))"
    using meta
    by (auto simp: call_Get_healthy [OF cl1] m2_def c2_def c1_def split: option.splits rvalue.splits)
  have cl2: "client m2 = Some c2" "faults c2 = []" by (simp_all add: m2_def c2_def c1_def c)
  have chunks: "map_option payload (keyspace c2 (chunkKey key j)) = Some (RString (chunk j))"
    if "0 \<le> j" "j < n" for j
    using assms(7) [OF that] c by (simp add: stored_def store_Some c2_def c1_def)
  have gc: "snd (getChunks m2 key n 0 []) = Inr (map chunk [0..n - 1])"
    using getChunks_healthy [OF cl2, of 0 n key chunk "[]"] chunks by simp
  have g2: "snd (getChunked m1 key) = Inr (concat (map chunk [0..n - 1]), flag = ''true'')"
    using g1 gc assms(6) Split_chunked_general [OF assms(4,5)]
    by (cases "getChunks m2 key n 0 []") (simp add: getChunked_def)
  from i1 g2 assms(1) show ?thesis
    by (cases "getChunked m1 key") (simp add: GetLarge_def)
qed




text \<open>
  C1 at an overwrite. \<open>SetLarge\<close> of a value that is stored plain (not compressed, one
  chunk) writes the base key only and leaves the metadata key of an earlier value in place.
  After a compressed value, the new bytes are then read through decompression and \<open>GetLarge\<close>
  fails; after a chunked value, \<open>GetLarge\<close> still follows the old metadata and returns the
  old payload. In both runs every \<open>SetLarge\<close> succeeded and the value read back is not the
  value stored last.
\<close>

theorem SetLarge_overwrite_keeps_stale_metadata:
  "snd (SetLarge toy_gzip small_manager ''k'' ''aaaaaaaa'') = None
   \<and> snd (SetLarge toy_gzip (fst (SetLarge toy_gzip small_manager ''k'' ''aaaaaaaa'')) ''k'' ''hi'') = None
   \<and> snd (GetLarge toy_gzip
            (fst (SetLarge toy_gzip (fst (SetLarge toy_gzip small_manager ''k'' ''aaaaaaaa'')) ''k'' ''hi''))
            ''k'') = Inl (GzipError ''gzip: invalid header'')
   \<and> snd (SetLarge toy_gzip small_manager ''k'' ''abcdefgh'') = None
   \<and> snd (SetLarge toy_gzip (fst (SetLarge toy_gzip small_manager ''k'' ''abcdefgh'')) ''k'' ''hi'') = None
   \<and> snd (GetLarge toy_gzip
            (fst (SetLarge toy_gzip (fst (SetLarge toy_gzip small_manager ''k'' ''abcdefgh'')) ''k'' ''hi''))
            ''k'') = Inr ''abcdefgh''"
  by code_simp

section \<open>Invalidation of dependency sets\<close>

lemma steady_refl: "healthy m \<Longrightarrow> steady m m"
  by (simp add: steady_def)

lemma steady_trans: "steady a b \<Longrightarrow> steady b c \<Longrightarrow> steady a c"
  by (simp add: steady_def)

lemma steady_healthy: "steady m m' \<Longrightarrow> healthy m'"
  by (simp add: steady_def)

lemma healthy_client: "healthy m \<Longrightarrow> \<exists>c. client m = Some c \<and> faults c = []"
  by (simp add: healthy_def split: option.splits)

lemma steady_call:
  assumes "healthy m" and "\<And>c. faults c = [] \<Longrightarrow> faults (fst (f c)) = []"
  shows "steady m (fst (call m f))"
proof -
  from healthy_client [OF assms(1)] obtain c where c: "client m = Some c" "faults c = []" by blast
  from assms(2) [OF c(2)] c(1) show ?thesis
    by (cases "f c") (simp add: call_def steady_def healthy_def)
qed

lemma steady_Get: "healthy m \<Longrightarrow> steady m (fst (call m (client_Get k)))"
  by (rule steady_call) (simp_all add: client_Get_def attempt_healthy split: option.splits rvalue.splits)

lemma steady_Del: "healthy m \<Longrightarrow> steady m (fst (call m (client_Del ks)))"
  by (rule steady_call) (simp_all add: client_Del_def attempt_healthy)

lemma steady_Exists: "healthy m \<Longrightarrow> steady m (fst (call m (client_Exists k)))"
  by (rule steady_call) (simp_all add: client_Exists_def attempt_healthy)

lemma steady_SMembers: "healthy m \<Longrightarrow> steady m (fst (call m (client_SMembers k)))"
  by (rule steady_call) (simp_all add: client_SMembers_def attempt_healthy split: option.splits rvalue.splits)

lemma steady_DeleteKeys: "healthy m \<Longrightarrow> steady m (fst (DeleteKeys m ks))"
  using steady_Del [of m ks]
  by (auto simp: DeleteKeys_def steady_refl split: option.splits prod.splits)

lemma steady_Exists_m: "healthy m \<Longrightarrow> steady m (fst (Exists m k))"
  using steady_Exists [of m k]
  by (auto simp: Exists_def steady_refl split: option.splits prod.splits sum.splits)

lemma steady_isChunkedValue: "healthy m \<Longrightarrow> steady m (fst (isChunkedValue m k))"
  using steady_Get [of m "k @ cacheMetadataSuffix"]
  by (auto simp: isChunkedValue_def split: prod.splits sum.splits)

lemma steady_DeleteLarge: "healthy m \<Longrightarrow> steady m (fst (DeleteLarge m k))"
proof -
  assume h: "healthy m"
  show ?thesis
  proof (cases "checkClient m")
    case (Some e)
    with h show ?thesis by (simp add: DeleteLarge_def steady_refl)
  next
    case None
    obtain m1 r1 where i: "isChunkedValue m k = (m1, r1)" by (cases "isChunkedValue m k") auto
    from steady_isChunkedValue [OF h, of k] i have s1: "steady m m1" by simp
    then have h1: "healthy m1" by (rule steady_healthy)
    show ?thesis
    proof (cases r1)
      case (Inl e)
      with None i s1 show ?thesis by (simp add: DeleteLarge_def)
    next
      case (Inr isChunked)
      show ?thesis
      proof (cases isChunked)
        case True
        obtain m2 r2 where g: "call m1 (client_Get (k @ cacheMetadataSuffix)) = (m2, r2)"
          by (cases "call m1 (client_Get (k @ cacheMetadataSuffix))") auto
        from steady_Get [OF h1, of "k @ cacheMetadataSuffix"] g have s2: "steady m1 m2" by simp
        then have h2: "healthy m2" by (rule steady_healthy)
        have "steady m (fst (DeleteKeys m2 ks))" for ks
          using steady_trans [OF steady_trans [OF s1 s2] steady_DeleteKeys [OF h2]] .
        with None i Inr True g show ?thesis
          by (cases r2) (simp_all add: DeleteLarge_def)
      next
        case False
        obtain m2 r2 where g: "Exists m1 (k @ cacheMetadataSuffix) = (m2, r2)"
          by (cases "Exists m1 (k @ cacheMetadataSuffix)") auto
        from steady_Exists_m [OF h1, of "k @ cacheMetadataSuffix"] g have s2: "steady m1 m2" by simp
        then have h2: "healthy m2" by (rule steady_healthy)
        have "steady m (fst (DeleteKeys m2 ks))" for ks
          using steady_trans [OF steady_trans [OF s1 s2] steady_DeleteKeys [OF h2]] .
        with None i Inr False g show ?thesis
          by (cases r2) (auto simp: DeleteLarge_def split: bool.splits)
      qed
    qed
  qed
qed

lemma steady_deleteDependents: "healthy m \<Longrightarrow> steady m (deleteDependents m ks)"
proof (induction ks arbitrary: m)
  case Nil
  then show ?case by (simp add: steady_refl)
next
  case (Cons k ks)
  from steady_DeleteLarge [OF Cons.prems, of k] have s: "steady m (fst (DeleteLarge m k))" .
  from Cons.IH [OF steady_healthy [OF s]] s show ?case
    by (auto intro: steady_trans)
qed

lemma IED_disabled:
  "checkClient m = Some e \<Longrightarrow> InvalidateEntityDependencies m et ident = (m, Some e)"
  by (simp add: InvalidateEntityDependencies_def)

lemma IED_no_members:
  assumes "checkClient m = None" "healthy m"
    and "store m (dependencyKey et ident) = None \<or> stored m (dependencyKey et ident) = Some (RSet [])"
  shows "snd (InvalidateEntityDependencies m et ident) = None"
    and "store (fst (InvalidateEntityDependencies m et ident)) = store m"
    and "steady m (fst (InvalidateEntityDependencies m et ident))"
proof -
  from healthy_client [OF assms(2)] obtain c where c: "client m = Some c" "faults c = []" by blast
  have r: "call m (client_SMembers (dependencyKey et ident)) = (m\<lparr>client := Some (c\<lparr>issued := Suc (issued c)\<rparr>)\<rparr>, Inr [])"
    using assms(3) c
    by (auto simp: call_SMembers_healthy stored_def store_Some split: option.splits rvalue.splits)
  from assms(1) r
  have eq: "InvalidateEntityDependencies m et ident = (m\<lparr>client := Some (c\<lparr>issued := Suc (issued c)\<rparr>)\<rparr>, None)"
    by (simp add: InvalidateEntityDependencies_def)
  show "snd (InvalidateEntityDependencies m et ident) = None" by (simp add: eq)
  show "store (fst (InvalidateEntityDependencies m et ident)) = store m" by (simp add: eq c store_Some)
  show "steady m (fst (InvalidateEntityDependencies m et ident))"
    by (simp add: eq steady_def healthy_def c)
qed

lemma IED_wrong_type:
  assumes "checkClient m = None" "healthy m"
    and "stored m (dependencyKey et ident) = Some (RString v)"
  shows "snd (InvalidateEntityDependencies m et ident) = Some (GetDependenciesFailed WrongType)"
    and "store (fst (InvalidateEntityDependencies m et ident)) = store m"
    and "steady m (fst (InvalidateEntityDependencies m et ident))"
proof -
  from healthy_client [OF assms(2)] obtain c where c: "client m = Some c" "faults c = []" by blast
  have r: "call m (client_SMembers (dependencyKey et ident)) = (m\<lparr>client := Some (c\<lparr>issued := Suc (issued c)\<rparr>)\<rparr>, Inl WrongType)"
    using assms(3) c
    by (auto simp: call_SMembers_healthy stored_def store_Some split: option.splits rvalue.splits)
  from assms(1) r
  have eq: "InvalidateEntityDependencies m et ident
            = (m\<lparr>client := Some (c\<lparr>issued := Suc (issued c)\<rparr>)\<rparr>, Some (GetDependenciesFailed WrongType))"
    by (simp add: InvalidateEntityDependencies_def)
  show "snd (InvalidateEntityDependencies m et ident) = Some (GetDependenciesFailed WrongType)" by (simp add: eq)
  show "store (fst (InvalidateEntityDependencies m et ident)) = store m" by (simp add: eq c store_Some)
  show "steady m (fst (InvalidateEntityDependencies m et ident))"
    by (simp add: eq steady_def healthy_def c)
qed

lemma IED_members:
  assumes "checkClient m = None" "healthy m"
    and "stored m (dependencyKey et ident) = Some (RSet ks)" "ks \<noteq> []"
  shows "snd (InvalidateEntityDependencies m et ident) = None"
    and "store (fst (InvalidateEntityDependencies m et ident)) (dependencyKey et ident) = None"
    and "steady m (fst (InvalidateEntityDependencies m et ident))"
proof -
  from healthy_client [OF assms(2)] obtain c where c: "client m = Some c" "faults c = []" by blast
  define m1 where "m1 = m\<lparr>client := Some (c\<lparr>issued := Suc (issued c)\<rparr>)\<rparr>"
  define m2 where "m2 = deleteDependents m1 ks"
  have r: "call m (client_SMembers (dependencyKey et ident)) = (m1, Inr ks)"
    using assms(3) c
    by (auto simp: call_SMembers_healthy stored_def store_Some m1_def split: option.splits rvalue.splits)
  have s1: "steady m m1" by (simp add: m1_def steady_def healthy_def c)
  have s2: "steady m1 m2" unfolding m2_def by (rule steady_deleteDependents [OF steady_healthy [OF s1]])
  from healthy_client [OF steady_healthy [OF s2]]
  obtain c2 where c2: "client m2 = Some c2" "faults c2 = []" by blast
  from assms(1,4) r
  have eq: "InvalidateEntityDependencies m et ident = (fst (call m2 (client_Del [dependencyKey et ident])), None)"
    by (simp add: InvalidateEntityDependencies_def m2_def Let_def)
  show "snd (InvalidateEntityDependencies m et ident) = None" by (simp add: eq)
  show "store (fst (InvalidateEntityDependencies m et ident)) (dependencyKey et ident) = None"
    by (simp add: eq call_Del_healthy [OF c2])
  show "steady m (fst (InvalidateEntityDependencies m et ident))"
    using steady_trans [OF steady_trans [OF s1 s2] steady_Del [OF steady_healthy [OF s2]]]
    by (simp add: eq)
qed

lemma steady_checkClient: "steady m m' \<Longrightarrow> checkClient m = None \<Longrightarrow> checkClient m' = None"
  by (auto simp: steady_def checkClient_def healthy_def split: option.splits if_splits)

text \<open>
  C6. On a backend that answers, a second \<open>InvalidateEntityDependencies\<close> right after the
  first leaves the keyspace (cached values and dependency sets), the metrics and the
  configuration as the first call left them, and returns what the first call returned.
  When the dependency set is absent or empty the call reports success and changes none of
  the three.
\<close>

theorem InvalidateEntityDependencies_idempotent:
  assumes "healthy m"
  shows "store (fst (InvalidateEntityDependencies (fst (InvalidateEntityDependencies m et ident)) et ident))
           = store (fst (InvalidateEntityDependencies m et ident))
       \<and> metrics (fst (InvalidateEntityDependencies (fst (InvalidateEntityDependencies m et ident)) et ident))
           = metrics (fst (InvalidateEntityDependencies m et ident))
       \<and> config (fst (InvalidateEntityDependencies (fst (InvalidateEntityDependencies m et ident)) et ident))
           = config (fst (InvalidateEntityDependencies m et ident))
       \<and> snd (InvalidateEntityDependencies (fst (InvalidateEntityDependencies m et ident)) et ident)
           = snd (InvalidateEntityDependencies m et ident)
       \<and> (checkClient m = None
            \<and> (store m (dependencyKey et ident) = None \<or> stored m (dependencyKey et ident) = Some (RSet []))
          \<longrightarrow> snd (InvalidateEntityDependencies m et ident) = None
              \<and> store (fst (InvalidateEntityDependencies m et ident)) = store m
              \<and> metrics (fst (InvalidateEntityDependencies m et ident)) = metrics m
              \<and> config (fst (InvalidateEntityDependencies m et ident)) = config m)"
proof -
  let ?m1 = "fst (InvalidateEntityDependencies m et ident)"
  let ?dk = "dependencyKey et ident"
  have twice: "store (fst (InvalidateEntityDependencies ?m1 et ident)) = store ?m1
       \<and> metrics (fst (InvalidateEntityDependencies ?m1 et ident)) = metrics ?m1
       \<and> config (fst (InvalidateEntityDependencies ?m1 et ident)) = config ?m1
       \<and> snd (InvalidateEntityDependencies ?m1 et ident) = snd (InvalidateEntityDependencies m et ident)"
  proof (cases "checkClient m")
    case (Some e)
    then show ?thesis by (simp add: IED_disabled)
  next
    case None
    consider (absent) "store m ?dk = None \<or> stored m ?dk = Some (RSet [])"
      | (wrong) v where "stored m ?dk = Some (RString v)"
      | (members) ks where "stored m ?dk = Some (RSet ks)" "ks \<noteq> []"
    proof (cases "store m ?dk")
      case None
      then show ?thesis using absent by simp
    next
      case (Some e)
      then show ?thesis
        using absent wrong members by (cases "payload e"; cases "payload e = RSet []") (auto simp: stored_def)
    qed
    then show ?thesis
    proof cases
      case absent
      note a = IED_no_members [OF None assms absent]
      from a(2) absent have "store ?m1 ?dk = None \<or> stored ?m1 ?dk = Some (RSet [])"
        by (simp add: stored_def)
      note b = IED_no_members [OF steady_checkClient [OF a(3) None] steady_healthy [OF a(3)] this]
      from a b show ?thesis by (simp add: steady_def)
    next
      case wrong
      note a = IED_wrong_type [OF None assms wrong]
      from a(2) wrong have "stored ?m1 ?dk = Some (RString v)" by (simp add: stored_def)
      note b = IED_wrong_type [OF steady_checkClient [OF a(3) None] steady_healthy [OF a(3)] this]
      from a b show ?thesis by (simp add: steady_def)
    next
      case members
      note a = IED_members [OF None assms members]
      from a(2) have "store ?m1 ?dk = None \<or> stored ?m1 ?dk = Some (RSet [])" by simp
      note b = IED_no_members [OF steady_checkClient [OF a(3) None] steady_healthy [OF a(3)] this]
      from a b show ?thesis by (simp add: steady_def)
    qed
  qed
  have none: "snd (InvalidateEntityDependencies m et ident) = None
              \<and> store ?m1 = store m \<and> metrics ?m1 = metrics m \<and> config ?m1 = config m"
    if "checkClient m = None"
      "store m ?dk = None \<or> stored m ?dk = Some (RSet [])"
    using IED_no_members [OF that(1) assms that(2)] by (simp add: steady_def)
  from twice none show ?thesis by blast
qed

theorem InvalidateEntityDependencies_idempotent_witness:
  "healthy deps_manager
   \<and> store deps_manager ''q'' \<noteq> None
   \<and> store (fst (InvalidateEntityDependencies deps_manager ''users'' (GoInt 1))) ''q'' = None
   \<and> store (fst (InvalidateEntityDependencies deps_manager ''users'' (GoInt 1))) ''sql4go:deps:users:1'' = None
   \<and> store (fst (InvalidateEntityDependencies
                   (fst (InvalidateEntityDependencies deps_manager ''users'' (GoInt 1))) ''users'' (GoInt 1)))
       = store (fst (InvalidateEntityDependencies deps_manager ''users'' (GoInt 1)))
   \<and> snd (InvalidateEntityDependencies
             (fst (InvalidateEntityDependencies deps_manager ''users'' (GoInt 1))) ''users'' (GoInt 1)) = None
   \<and> snd (InvalidateEntityDependencies small_manager ''users'' (GoInt 1)) = None
   \<and> store (fst (InvalidateEntityDependencies small_manager ''users'' (GoInt 1))) = store small_manager"
proof -
  have h: "healthy deps_manager" "healthy small_manager" by code_simp+
  have a: "store deps_manager ''q'' \<noteq> None"
    "store (fst (InvalidateEntityDependencies deps_manager ''users'' (GoInt 1))) ''q'' = None"
    "store (fst (InvalidateEntityDependencies deps_manager ''users'' (GoInt 1))) ''sql4go:deps:users:1'' = None"
    "snd (InvalidateEntityDependencies deps_manager ''users'' (GoInt 1)) = None"
    by code_simp+
  have b: "checkClient small_manager = None" "store small_manager (dependencyKey ''users'' (GoInt 1)) = None"
    by code_simp+
  from InvalidateEntityDependencies_idempotent [OF h(1), of "''users''" "GoInt 1"]
    InvalidateEntityDependencies_idempotent [OF h(2), of "''users''" "GoInt 1"] h a b
  show ?thesis by simp
qed

section \<open>The time to live of dependency sets\<close>

lemma run_cmds_append:
  "run_cmds (xs @ ys) ks =
     (fst (run_cmds ys (fst (run_cmds xs ks))),
      (case snd (run_cmds xs ks) of Some e \<Rightarrow> Some e | None \<Rightarrow> snd (run_cmds ys (fst (run_cmds xs ks)))))"
  by (induction xs arbitrary: ks) (auto split: prod.splits option.splits)

lemma sdiv_pos: "0 < k \<Longrightarrow> 0 < l \<Longrightarrow> k sdiv l = k div l" for k l :: int
  by (simp add: signed_divide_int_def)

lemma smod_pos: "0 < k \<Longrightarrow> 0 < l \<Longrightarrow> k smod l = k mod l" for k l :: int
  by (simp add: signed_modulo_int_def)

lemma formatSec_pos: "0 < sint d \<Longrightarrow> formatSec d = max 1 (sint d div Second)"
proof -
  assume p: "0 < sint d"
  show ?thesis
  proof (cases "sint d < Second")
    case True
    with p have "sint d div Second = 0" by (simp add: Second_def)
    with True p show ?thesis by (simp add: formatSec_def)
  next
    case False
    then have "1 \<le> sint d div Second"
      by (simp add: Second_def pos_imp_zdiv_pos_iff)
    with False p show ?thesis by (simp add: formatSec_def sdiv_pos Second_def)
  qed
qed

lemma link_pair:
  assumes "snd (run_cmds [CmdSAdd dk ck, CmdExpire dk d] ks) = None" "0 < formatSec d"
  shows "linked (formatSec d * 1000) (fst (run_cmds [CmdSAdd dk ck, CmdExpire dk d] ks)) dk"
    and "k \<noteq> dk \<Longrightarrow> fst (run_cmds [CmdSAdd dk ck, CmdExpire dk d] ks) k = ks k"
    and "\<not> holds_string ks dk"
  using assms
  by (auto simp: linked_def holds_string_def split: option.splits rvalue.splits prod.splits if_splits)


lemma idCmds_linked:
  "snd (run_cmds (idCmds d ck et ids) ks) = None \<Longrightarrow> 0 < formatSec (d * 2) \<Longrightarrow>
   (\<forall>k. linked (formatSec (d * 2) * 1000) ks k \<or> k \<in> dependencyKey et ` set ids
          \<longrightarrow> linked (formatSec (d * 2) * 1000) (fst (run_cmds (idCmds d ck et ids) ks)) k)
   \<and> (\<forall>k. holds_string ks k \<longrightarrow> fst (run_cmds (idCmds d ck et ids) ks) k = ks k)"
proof (induction ids arbitrary: ks)
  case Nil
  then show ?case by simp
next
  case (Cons i ids)
  let ?dk = "dependencyKey et i"
  let ?t = "formatSec (d * 2) * 1000"
  let ?pair = "[CmdSAdd ?dk ck, CmdExpire ?dk (d * 2)]"
  let ?ks1 = "fst (run_cmds ?pair ks)"
  have split: "idCmds d ck et (i # ids) = ?pair @ idCmds d ck et ids" by simp
  from Cons.prems(1) have ok1: "snd (run_cmds ?pair ks) = None"
    and ok2: "snd (run_cmds (idCmds d ck et ids) ?ks1) = None"
    unfolding split run_cmds_append by (auto split: option.splits)
  note p = link_pair [OF ok1 Cons.prems(2)]
  note ih = Cons.IH [OF ok2 Cons.prems(2)]
  have fst_eq: "fst (run_cmds (idCmds d ck et (i # ids)) ks) = fst (run_cmds (idCmds d ck et ids) ?ks1)"
    unfolding split run_cmds_append by simp
  have keep: "linked ?t ?ks1 k" if "linked ?t ks k" for k
    using that p(1) p(2) [of k] by (cases "k = ?dk") (simp_all add: linked_def)
  have str: "holds_string ?ks1 k \<and> ?ks1 k = ks k" if "holds_string ks k" for k
    using that p(2) [of k] p(3) by (cases "k = ?dk") (auto simp: holds_string_def)
  show ?case
    unfolding fst_eq using ih keep p(1) str by auto
qed

lemma dependencyCmds_linked:
  "snd (run_cmds (dependencyCmds d ck deps) ks) = None \<Longrightarrow> 0 < formatSec (d * 2) \<Longrightarrow>
   (\<forall>k. linked (formatSec (d * 2) * 1000) ks k
          \<or> (\<exists>et ids i. (et, ids) \<in> set deps \<and> i \<in> set ids \<and> k = dependencyKey et i)
          \<longrightarrow> linked (formatSec (d * 2) * 1000) (fst (run_cmds (dependencyCmds d ck deps) ks)) k)
   \<and> (\<forall>k. holds_string ks k \<longrightarrow> fst (run_cmds (dependencyCmds d ck deps) ks) k = ks k)"
proof (induction deps arbitrary: ks)
  case Nil
  then show ?case by simp
next
  case (Cons a deps)
  obtain et ids where a: "a = (et, ids)" by (cases a) auto
  let ?t = "formatSec (d * 2) * 1000"
  let ?ks1 = "fst (run_cmds (idCmds d ck et ids) ks)"
  have split: "dependencyCmds d ck (a # deps) = idCmds d ck et ids @ dependencyCmds d ck deps"
    by (simp add: a)
  from Cons.prems(1) have ok1: "snd (run_cmds (idCmds d ck et ids) ks) = None"
    and ok2: "snd (run_cmds (dependencyCmds d ck deps) ?ks1) = None"
    unfolding split run_cmds_append by (auto split: option.splits)
  note p = idCmds_linked [OF ok1 Cons.prems(2)]
  note ih = Cons.IH [OF ok2 Cons.prems(2)]
  have fst_eq: "fst (run_cmds (dependencyCmds d ck (a # deps)) ks) = fst (run_cmds (dependencyCmds d ck deps) ?ks1)"
    unfolding split run_cmds_append by simp
  have str: "holds_string ?ks1 k" if "holds_string ks k" for k
    using that p by (simp add: holds_string_def)
  have A: "linked ?t (fst (run_cmds (dependencyCmds d ck deps) ?ks1)) k"
    if "linked ?t ks k
        \<or> (\<exists>et' ids' i. (et', ids') \<in> set (a # deps) \<and> i \<in> set ids' \<and> k = dependencyKey et' i)" for k
  proof -
    from that a consider "linked ?t ks k" | "k \<in> dependencyKey et ` set ids"
      | "\<exists>et' ids' i. (et', ids') \<in> set deps \<and> i \<in> set ids' \<and> k = dependencyKey et' i"
      by auto
    then show ?thesis
    proof cases
      case 1
      with p have "linked ?t ?ks1 k" by blast
      with ih show ?thesis by blast
    next
      case 2
      with p have "linked ?t ?ks1 k" by blast
      with ih show ?thesis by blast
    next
      case 3
      with ih show ?thesis by blast
    qed
  qed
  have B: "fst (run_cmds (dependencyCmds d ck deps) ?ks1) k = ks k" if "holds_string ks k" for k
    using that str [OF that] ih p by simp
  show ?case
    unfolding fst_eq using A B by blast
qed

lemma dependencyCmds_nonempty:
  "(et, ids) \<in> set deps \<Longrightarrow> i \<in> set ids \<Longrightarrow> dependencyCmds d ck deps \<noteq> []"
proof (induction deps)
  case Nil
  then show ?case by simp
next
  case (Cons a deps)
  then show ?case by (cases a; cases ids) auto
qed

lemma double_ttl:
  fixes d :: duration
  assumes "0 < sint d" "sint d < 2 ^ 62"
  shows "sint (d * 2) = 2 * sint d"
proof -
  have "sint (d * 2) = signed_take_bit 63 (sint d * 2)"
    by (simp add: sint_word_ariths word_size)
  also have "\<dots> = sint d * 2"
    using assms by (intro signed_take_bit_int_eq_self) auto
  finally show ?thesis by simp
qed

text \<open>A round trip that came back without an error ran its commands on the keyspace.\<close>

lemma call_Exec_ok:
  assumes "client m = Some c" "err_of (snd (call m (client_Exec cmds))) = None"
  shows "store (fst (call m (client_Exec cmds))) = fst (run_cmds cmds (keyspace c))"
    and "snd (run_cmds cmds (keyspace c)) = None"
    and "metrics (fst (call m (client_Exec cmds))) = metrics m"
  using assms
  by (auto simp: call_def client_Exec_def attempt_def err_of_def result_of_def store_def
      split: prod.splits if_splits list.splits option.splits sum.splits)

lemma call_Do_cases:
  assumes "client m = Some c"
  shows "(snd (call m (client_Do x)) = Inl ConnError
           \<and> store (fst (call m (client_Do x))) = keyspace c)
         \<or> (snd (call m (client_Do x)) = result_of (snd (run_cmd x (keyspace c)))
           \<and> store (fst (call m (client_Do x))) = fst (run_cmd x (keyspace c)))"
    and "metrics (fst (call m (client_Do x))) = metrics m"
    and "config (fst (call m (client_Do x))) = config m"
    and "\<exists>c1. client (fst (call m (client_Do x))) = Some c1"
  using assms
  by (auto simp: call_def client_Do_def attempt_def store_def split: prod.splits if_splits list.splits)

lemma result_of_ok: "err_of (result_of r) = None \<longleftrightarrow> r = None"
  by (cases r) (simp_all add: err_of_def result_of_def)

lemma run_cmd_Expire_ok: "snd (run_cmd (CmdExpire k d) ks) = None"
  by (simp split: option.splits)


lemma AddDependency_linked:
  assumes "checkClient m = None" "healthy m" "0 < formatSec (DefaultTTL (config m) * 2)"
    and "snd (AddDependency m et ident ck) = None"
  shows "linked (formatSec (DefaultTTL (config m) * 2) * 1000)
           (store (fst (AddDependency m et ident ck))) (dependencyKey et ident)"
proof -
  let ?dk = "dependencyKey et ident"
  let ?d = "DefaultTTL (config m) * 2"
  from healthy_client [OF assms(2)] obtain c where c: "client m = Some c" "faults c = []" by blast
  define c1 where "c1 = c\<lparr>issued := Suc (issued c), keyspace := fst (run_cmd (CmdSAdd ?dk ck) (keyspace c))\<rparr>"
  define m2 where "m2 = m\<lparr>client := Some c1, metrics := RecordDependency (metrics m)\<rparr>"
  have sadd: "call m (client_Do (CmdSAdd ?dk ck)) = (m\<lparr>client := Some c1\<rparr>, result_of (snd (run_cmd (CmdSAdd ?dk ck) (keyspace c))))"
    by (simp add: call_Do_healthy [OF c] c1_def)
  have ok: "snd (run_cmd (CmdSAdd ?dk ck) (keyspace c)) = None"
  proof (rule ccontr)
    assume "snd (run_cmd (CmdSAdd ?dk ck) (keyspace c)) \<noteq> None"
    then obtain e where "snd (run_cmd (CmdSAdd ?dk ck) (keyspace c)) = Some e" by auto
    with assms(1,4) sadd show False by (simp add: AddDependency_def result_of_def)
  qed
  have cl2: "client m2 = Some c1" "faults c1 = []" by (simp_all add: m2_def c1_def c)
  have "store (fst (AddDependency m et ident ck)) = fst (run_cmd (CmdExpire ?dk ?d) (keyspace c1))"
    using assms(1) sadd ok call_Do_healthy [OF cl2, of "CmdExpire ?dk ?d"]
    by (auto simp: AddDependency_def result_of_def Let_def m2_def split: sum.splits prod.splits)
  also have "\<dots> = fst (run_cmds [CmdSAdd ?dk ck, CmdExpire ?dk ?d] (keyspace c))"
    by (simp del: run_cmd.simps add: c1_def case_prod_unfold)
  finally have eq: "store (fst (AddDependency m et ident ck)) = fst (run_cmds [CmdSAdd ?dk ck, CmdExpire ?dk ?d] (keyspace c))" .
  have "snd (run_cmds [CmdSAdd ?dk ck, CmdExpire ?dk ?d] (keyspace c)) = None"
    using ok by (simp del: run_cmd.simps add: case_prod_unfold run_cmd_Expire_ok)
  from link_pair(1) [OF this assms(3)] eq show ?thesis by simp
qed

text \<open>
  Whatever the backend does: when \<open>AddDependency\<close> returns nil, either the set has its time to
  live, or the \<open>EXPIRE\<close> failed and was counted as a cache error.
\<close>

lemma AddDependency_nil:
  assumes "checkClient m = None" "0 < formatSec (DefaultTTL (config m) * 2)"
    and "snd (AddDependency m et ident ck) = None"
  shows "linked (formatSec (DefaultTTL (config m) * 2) * 1000)
           (store (fst (AddDependency m et ident ck))) (dependencyKey et ident)
         \<or> cacheErrors (metrics (fst (AddDependency m et ident ck))) = cacheErrors (metrics m) + 1"
proof -
  let ?dk = "dependencyKey et ident"
  let ?d = "DefaultTTL (config m) * 2"
  from assms(1) obtain c where c: "client m = Some c"
    by (auto simp: checkClient_None)
  obtain m1 r1 where r1: "call m (client_Do (CmdSAdd ?dk ck)) = (m1, r1)" by (cases "call m (client_Do (CmdSAdd ?dk ck))") auto
  from assms(1,3) r1 obtain u where u: "r1 = Inr u"
    by (cases r1) (simp_all add: AddDependency_def)
  note a = call_Do_cases [OF c, of "CmdSAdd ?dk ck"]
  from a(1) r1 u have ok: "snd (run_cmd (CmdSAdd ?dk ck) (keyspace c)) = None"
    and st1: "store m1 = fst (run_cmd (CmdSAdd ?dk ck) (keyspace c))"
    by (auto simp: result_of_def split: option.splits)
  from a(2,4) r1 obtain c1 where c1: "client m1 = Some c1" and me1: "metrics m1 = metrics m" by auto
  define m2 where "m2 = m1\<lparr>metrics := RecordDependency (metrics m1)\<rparr>"
  have cl2: "client m2 = Some c1" by (simp add: m2_def c1)
  have ks1: "keyspace c1 = fst (run_cmd (CmdSAdd ?dk ck) (keyspace c))"
    using st1 c1 by (simp add: store_Some)
  obtain m3 r3 where r3: "call m2 (client_Do (CmdExpire ?dk ?d)) = (m3, r3)"
    by (cases "call m2 (client_Do (CmdExpire ?dk ?d))") auto
  note b = call_Do_cases [OF cl2, of "CmdExpire ?dk ?d"]
  have me3: "metrics m3 = RecordDependency (metrics m)"
    using b(2) r3 me1 by (simp add: m2_def)
  have res: "AddDependency m et ident ck
               = (case r3 of Inl e \<Rightarrow> (m3\<lparr>metrics := RecordCacheError (metrics m3)\<rparr>, None) | Inr _ \<Rightarrow> (m3, None))"
    using assms(1) r1 u r3 by (simp add: AddDependency_def Let_def m2_def split: sum.splits)
  show ?thesis
  proof (cases r3)
    case (Inl e)
    with res me3 show ?thesis
      by (simp add: RecordCacheError_def RecordDependency_def)
  next
    case (Inr w)
    with b(1) r3 have "store m3 = fst (run_cmd (CmdExpire ?dk ?d) (keyspace c1))" by auto
    also have "\<dots> = fst (run_cmds [CmdSAdd ?dk ck, CmdExpire ?dk ?d] (keyspace c))"
      by (simp del: run_cmd.simps add: ks1 case_prod_unfold)
    finally have eq: "store m3 = fst (run_cmds [CmdSAdd ?dk ck, CmdExpire ?dk ?d] (keyspace c))" .
    have "snd (run_cmds [CmdSAdd ?dk ck, CmdExpire ?dk ?d] (keyspace c)) = None"
      using ok by (simp del: run_cmd.simps add: case_prod_unfold run_cmd_Expire_ok)
    from link_pair(1) [OF this assms(2)] eq res Inr show ?thesis by simp
  qed
qed

lemma AddMultipleDependencies_linked:
  assumes "checkClient m = None" "0 < formatSec (DefaultTTL (config m) * 2)"
    and "snd (AddMultipleDependencies m deps ck) = None"
    and "(et, ids) \<in> set deps" "i \<in> set ids"
  shows "linked (formatSec (DefaultTTL (config m) * 2) * 1000)
           (store (fst (AddMultipleDependencies m deps ck))) (dependencyKey et i)"
proof -
  let ?cmds = "dependencyCmds (DefaultTTL (config m)) ck deps"
  from assms(1) obtain c where c: "client m = Some c"
    by (auto simp: checkClient_None)
  from assms(1) have eq: "AddMultipleDependencies m deps ck
      = (fst (call m (client_Exec ?cmds)), err_of (snd (call m (client_Exec ?cmds))))"
    by (simp add: AddMultipleDependencies_def split: prod.splits)
  from assms(3) have "err_of (snd (call m (client_Exec ?cmds))) = None" by (simp add: eq)
  note e = call_Exec_ok [OF c this]
  from dependencyCmds_linked [OF e(2) assms(2)] assms(4,5) e(1) show ?thesis
    by (auto simp: eq)
qed

lemma SetWithDependencies_linked:
  assumes "checkClient m = None" "0 < sint (DefaultTTL (config m))" "0 < formatSec (DefaultTTL (config m) * 2)"
    and "snd (SetWithDependencies m ck v deps) = None"
  shows "(et, ids) \<in> set deps \<Longrightarrow> i \<in> set ids \<Longrightarrow>
         linked (formatSec (DefaultTTL (config m) * 2) * 1000)
           (store (fst (SetWithDependencies m ck v deps))) (dependencyKey et i)"
    and "map_option expiry (store (fst (SetWithDependencies m ck v deps)) ck)
           = Some (Some (if usePrecise (DefaultTTL (config m)) then formatMs (DefaultTTL (config m))
                         else formatSec (DefaultTTL (config m)) * 1000))"
    and "stored (fst (SetWithDependencies m ck v deps)) ck = Some (RString v)"
proof -
  let ?d = "DefaultTTL (config m)"
  let ?t = "if usePrecise ?d then formatMs ?d else formatSec ?d * 1000"
  let ?cmds = "dependencyCmds ?d ck deps"
  from assms(1) obtain c where c: "client m = Some c"
    by (auto simp: checkClient_None)
  let ?ks1 = "fst (run_cmd (CmdSet ck v ?d) (keyspace c))"
  from assms(1) have eq: "SetWithDependencies m ck v deps
      = (fst (call m (client_Exec (CmdSet ck v ?d # ?cmds))), err_of (snd (call m (client_Exec (CmdSet ck v ?d # ?cmds)))))"
    by (simp add: SetWithDependencies_def split: prod.splits)
  from assms(4) have "err_of (snd (call m (client_Exec (CmdSet ck v ?d # ?cmds)))) = None" by (simp add: eq)
  note e = call_Exec_ok [OF c this]
  from e(2) have ok: "snd (run_cmds ?cmds ?ks1) = None"
    by (auto split: prod.splits option.splits)
  have st: "store (fst (SetWithDependencies m ck v deps)) = fst (run_cmds ?cmds ?ks1)"
    by (simp add: eq e(1) split: prod.splits)
  note l = dependencyCmds_linked [OF ok assms(3)]
  have hs: "holds_string ?ks1 ck" by (simp add: holds_string_def)
  have ck1: "?ks1 ck = Some \<lparr>payload = RString v, expiry = Some ?t\<rparr>"
    using assms(2) by (simp add: set_expiry_def)
  show "linked (formatSec (?d * 2) * 1000) (store (fst (SetWithDependencies m ck v deps))) (dependencyKey et i)"
    if "(et, ids) \<in> set deps" "i \<in> set ids"
    using l that by (auto simp: st)
  from l hs have same: "fst (run_cmds ?cmds ?ks1) ck = ?ks1 ck" by blast
  show "map_option expiry (store (fst (SetWithDependencies m ck v deps)) ck) = Some (Some ?t)"
    by (simp del: run_cmd.simps add: st same ck1)
  show "stored (fst (SetWithDependencies m ck v deps)) ck = Some (RString v)"
    by (simp del: run_cmd.simps add: stored_def st same ck1)
qed

text \<open>The value's own time to live, in milliseconds, is below that of its dependency sets.\<close>

lemma value_ttl_below_set_ttl:
  fixes d :: duration
  assumes "0 < sint d" "sint d < 2 ^ 62"
  shows "(if usePrecise d then formatMs d else formatSec d * 1000) < formatSec (d * 2) * 1000"
proof -
  let ?n = "sint d"
  have dbl: "sint (d * 2) = 2 * ?n" by (rule double_ttl [OF assms])
  have fs2: "formatSec (d * 2) = max 1 (2 * ?n div Second)"
    using formatSec_pos [of "d * 2"] assms(1) dbl by simp
  have v: "(if usePrecise d then formatMs d else formatSec d * 1000) \<le> max 1 (?n div Millisecond)"
  proof (cases "usePrecise d")
    case True
    then show ?thesis using assms(1)
      by (auto simp: formatMs_def sdiv_pos Millisecond_def)
  next
    case False
    then have ge: "Second \<le> ?n" and md: "?n mod Second = 0"
      using assms(1) by (auto simp: usePrecise_def smod_pos Second_def)
    then have "formatSec d = ?n div Second"
      using assms(1) by (simp add: formatSec_def sdiv_pos Second_def)
    moreover have "?n div Second * 1000 = ?n div Millisecond"
      using md by (auto simp: Second_def Millisecond_def)
    ultimately show ?thesis using False by simp
  qed
  show ?thesis
  proof (cases "?n < Second")
    case True
    then have "?n div Millisecond < 1000"
      by (simp add: Second_def Millisecond_def)
    with v fs2 show ?thesis by (auto simp: max_def split: if_splits)
  next
    case False
    define q where "q = ?n div Second"
    define r where "r = ?n mod Second"
    have n: "?n = q * Second + r" by (simp add: q_def r_def)
    have r: "0 \<le> r" "r < Second" by (simp_all add: r_def Second_def)
    have q: "1 \<le> q" using False by (simp add: q_def Second_def pos_imp_zdiv_pos_iff)
    have "2 * q \<le> 2 * ?n div Second"
    proof -
      have "2 * q * Second \<le> 2 * ?n" using n r by simp
      then show ?thesis by (simp add: Second_def pos_imp_zdiv_pos_iff zdiv_mono1 le_div_geq)
    qed
    moreover have "?n div Millisecond < (q + 1) * 1000"
    proof -
      have "?n < (q + 1) * 1000 * Millisecond"
        using n r by (simp add: Second_def Millisecond_def algebra_simps)
      then show ?thesis by (simp add: Millisecond_def div_less_iff_less_mult)
    qed
    ultimately show ?thesis using v fs2 q by (auto simp: max_def split: if_splits)
  qed
qed


text \<open>
  C7, as the code has it. Let the default time to live \<open>d\<close> be positive and below \<open>2^62\<close>
  nanoseconds (so that \<open>d*2\<close> does not wrap), and let \<open>ttl\<close> be \<open>d*2\<close> in whole seconds, rounded
  down and at least one second, as \<open>EXPIRE\<close> carries it. Under any fault schedule:
  \<open>AddMultipleDependencies\<close> and \<open>SetWithDependencies\<close> that return nil leave every dependency
  set they name with the time to live \<open>ttl\<close>; \<open>AddDependency\<close> that returns nil does so too,
  unless its \<open>EXPIRE\<close> failed, which it counts as a cache error and does not report, and which
  cannot happen on a backend that answers. \<open>SetWithDependencies\<close> stores the value itself
  with \<open>DefaultTTL\<close>, which is less than \<open>ttl\<close>. None of the three reads the time to live of
  a cached value. When \<open>d\<close> is a whole number of seconds, \<open>ttl\<close> is exactly \<open>d*2\<close>.
\<close>

theorem dependency_set_ttl:
  assumes "checkClient m = None"
    and "0 < sint (DefaultTTL (config m))" and "sint (DefaultTTL (config m)) < 2 ^ 62"
    and "ttl = 1000 * max 1 (2 * sint (DefaultTTL (config m)) div Second)"
  shows "(snd (AddDependency m et ident ck) = None
            \<longrightarrow> linked ttl (store (fst (AddDependency m et ident ck))) (dependencyKey et ident)
                \<or> cacheErrors (metrics (fst (AddDependency m et ident ck))) = cacheErrors (metrics m) + 1)
       \<and> (healthy m \<and> snd (AddDependency m et ident ck) = None
            \<longrightarrow> linked ttl (store (fst (AddDependency m et ident ck))) (dependencyKey et ident))
       \<and> (snd (AddMultipleDependencies m deps ck) = None
            \<longrightarrow> (\<forall>t ids i. (t, ids) \<in> set deps \<and> i \<in> set ids
                    \<longrightarrow> linked ttl (store (fst (AddMultipleDependencies m deps ck))) (dependencyKey t i)))
       \<and> (snd (SetWithDependencies m ck v deps) = None
            \<longrightarrow> (\<forall>t ids i. (t, ids) \<in> set deps \<and> i \<in> set ids
                    \<longrightarrow> linked ttl (store (fst (SetWithDependencies m ck v deps))) (dependencyKey t i))
                \<and> map_option expiry (store (fst (SetWithDependencies m ck v deps)) ck)
                    = Some (Some (if usePrecise (DefaultTTL (config m)) then formatMs (DefaultTTL (config m))
                                  else formatSec (DefaultTTL (config m)) * 1000))
                \<and> (if usePrecise (DefaultTTL (config m)) then formatMs (DefaultTTL (config m))
                    else formatSec (DefaultTTL (config m)) * 1000) < ttl)
       \<and> (sint (DefaultTTL (config m)) mod Second = 0 \<longrightarrow> ttl * Millisecond = 2 * sint (DefaultTTL (config m)))"
proof -
  let ?d = "DefaultTTL (config m)"
  have dbl: "sint (?d * 2) = 2 * sint ?d"
    by (rule double_ttl [OF assms(2,3)])
  with assms(2) have "0 < sint (?d * 2)" by simp
  from formatSec_pos [OF this] dbl assms(4)
  have t: "formatSec (?d * 2) * 1000 = ttl" and pos: "0 < formatSec (?d * 2)" by simp_all
  have whole: "ttl * Millisecond = 2 * sint ?d" if "sint ?d mod Second = 0"
  proof -
    from that have "2 * sint ?d div Second * Second = 2 * sint ?d"
      by (auto simp: Second_def)
    moreover from that assms(2) have "Second \<le> sint ?d"
      by (auto simp: Second_def elim!: dvdE)
    then have "1 \<le> 2 * sint ?d div Second"
      by (simp add: Second_def pos_imp_zdiv_pos_iff)
    ultimately show ?thesis
      using assms(4) by (simp add: max_def Second_def Millisecond_def)
  qed
  show ?thesis
    using AddDependency_nil [OF assms(1) pos, of et ident ck]
      AddDependency_linked [OF assms(1) _ pos, of et ident ck]
      AddMultipleDependencies_linked [OF assms(1) pos, of deps ck]
      SetWithDependencies_linked(1,2) [OF assms(1,2) pos, of ck v deps]
      value_ttl_below_set_ttl [OF assms(2,3)] whole
    unfolding t by blast
qed

theorem dependency_set_ttl_witness:
  "linked 20000 (store (fst (SetWithDependencies small_manager ''q'' ''rows'' [(''users'', [GoInt 1, GoInt 2])])))
     (dependencyKey ''users'' (GoInt 2))
   \<and> map_option expiry
        (store (fst (SetWithDependencies small_manager ''q'' ''rows'' [(''users'', [GoInt 1, GoInt 2])])) ''q'')
       = Some (Some 10000)
   \<and> linked 20000 (store (fst (AddDependency small_manager ''users'' (GoInt 1) ''q''))) (dependencyKey ''users'' (GoInt 1))
   \<and> linked 20000 (store (fst (AddMultipleDependencies small_manager [(''users'', [GoInt 1, GoInt 2])] ''q'')))
        (dependencyKey ''users'' (GoInt 1))"
proof -
  have d: "DefaultTTL (config small_manager) = 10000000000"
    by (simp add: small_manager_def small_config_def)
  have t: "0 < sint (DefaultTTL (config small_manager))" "sint (DefaultTTL (config small_manager)) < 2 ^ 62"
    by (simp_all add: d)
  have l: "(20000 :: int) = 1000 * max 1 (2 * sint (DefaultTTL (config small_manager)) div Second)"
    by (simp add: d Second_def)
  have p: "\<not> usePrecise (DefaultTTL (config small_manager))" "formatSec (DefaultTTL (config small_manager)) = 10"
    by (simp_all add: d usePrecise_def formatSec_def Second_def)
  have ok: "snd (AddDependency small_manager ''users'' (GoInt 1) ''q'') = None"
    "snd (AddMultipleDependencies small_manager [(''users'', [GoInt 1, GoInt 2])] ''q'') = None"
    "snd (SetWithDependencies small_manager ''q'' ''rows'' [(''users'', [GoInt 1, GoInt 2])]) = None"
    by code_simp+
  from dependency_set_ttl [OF small_manager_ok(1) t l, of "''users''" "GoInt 1" "''q''"
      "[(''users'', [GoInt 1, GoInt 2])]" "''rows''"] ok small_manager_ok(2)
  show ?thesis by (simp add: p)
qed

text \<open>
  The claim as written fails in three ways. A value stored with a time to live of its own
  (3 seconds) and linked by \<open>AddDependency\<close> gets a set that lives 20 seconds, twice the
  default of 10. With a default of 750 milliseconds the value lives 750 milliseconds and its
  set one second, not one and a half. And when the \<open>EXPIRE\<close> of \<open>AddDependency\<close> fails, the
  call returns nil and the new set has no time to live at all.
\<close>

theorem AddDependency_ignores_value_ttl:
  "map_option expiry (store (fst (SetWithTTL small_manager ''q'' ''rows'' 3000000000)) ''q'') = Some (Some 3000)
   \<and> snd (AddDependency (fst (SetWithTTL small_manager ''q'' ''rows'' 3000000000)) ''users'' (GoInt 1) ''q'') = None
   \<and> map_option expiry
        (store (fst (AddDependency (fst (SetWithTTL small_manager ''q'' ''rows'' 3000000000)) ''users'' (GoInt 1) ''q''))
           (dependencyKey ''users'' (GoInt 1)))
       = Some (Some 20000)
   \<and> snd (SetWithDependencies brief_manager ''q'' ''rows'' [(''users'', [GoInt 1])]) = None
   \<and> map_option expiry
        (store (fst (SetWithDependencies brief_manager ''q'' ''rows'' [(''users'', [GoInt 1])])) ''q'')
       = Some (Some 750)
   \<and> map_option expiry
        (store (fst (SetWithDependencies brief_manager ''q'' ''rows'' [(''users'', [GoInt 1])]))
           (dependencyKey ''users'' (GoInt 1)))
       = Some (Some 1000)
   \<and> snd (AddDependency flaky_manager ''users'' (GoInt 1) ''q'') = None
   \<and> map_option expiry
        (store (fst (AddDependency flaky_manager ''users'' (GoInt 1) ''q'')) (dependencyKey ''users'' (GoInt 1)))
       = Some None"
  by code_simp

section \<open>Cache keys, nil inputs and chain methods\<close>

text \<open>
  C5, as the code has it. The key is \<open>sql4go:<db>:<table>:<operation>\<close>, and the separator and
  the discriminator are appended to it only when the discriminator is not empty; with an
  empty one the key ends with the operation name. For one database, table and operation,
  two discriminators give the same key only when they are equal.
\<close>

theorem generateCacheKey_suffix:
  "generateCacheKey r operation suffix
     = ''sql4go:'' @ dbName r @ '':'' @ tableName r @ '':'' @ operation
       @ (if suffix = [] then [] else '':'' @ suffix)
   \<and> generateCacheKey r operation suffix
     = generateCacheKey r operation [] @ (if suffix = [] then [] else cacheKeySeparator @ suffix)
   \<and> (generateCacheKey r operation s1 = generateCacheKey r operation s2 \<longleftrightarrow> s1 = s2)"
proof -
  have a: "generateCacheKey r operation s
             = generateCacheKey r operation [] @ (if s = [] then [] else cacheKeySeparator @ s)" for s
    by (simp add: generateCacheKey_def)
  have f: "generateCacheKey r operation suffix
     = ''sql4go:'' @ dbName r @ '':'' @ tableName r @ '':'' @ operation
       @ (if suffix = [] then [] else '':'' @ suffix)"
    by (simp add: generateCacheKey_def cacheKeyPrefix_def cacheKeySeparator_def)
  have "s1 = s2" if "generateCacheKey r operation s1 = generateCacheKey r operation s2"
  proof -
    from that have "(if s1 = [] then [] else cacheKeySeparator @ s1)
                    = (if s2 = [] then [] else cacheKeySeparator @ s2)"
      by (subst (asm) a [of s1], subst (asm) a [of s2]) simp
    then show ?thesis
      by (auto simp: cacheKeySeparator_def split: if_splits)
  qed
  with a [of suffix] f show ?thesis by blast
qed

text \<open>
  The claim as written fails: a present but empty discriminator (\<open>FindByID\<close> with the
  identifier \<open>""\<close>) gives the key that no discriminator gives, with no separator at its end.
\<close>

theorem generateCacheKey_empty_discriminator:
  "generateCacheKey demo_repo ''find_by_id'' (fmt_v (GoString [])) = ''sql4go:shop:users:find_by_id''
   \<and> generateCacheKey demo_repo ''find_by_id'' [] = ''sql4go:shop:users:find_by_id''"
  by (simp add: generateCacheKey_def demo_repo_def cacheKeyPrefix_def cacheKeySeparator_def)

text \<open>
  C9. A nil identifier or a nil entity pointer ends the call at once with an error, and the
  world is returned as it was. The database functions and the cache helpers are parameters
  that may change the world in any way, and the manager counts its round trips, so an
  untouched world means that none of them was called.
\<close>

theorem nil_inputs_rejected:
  "FindByID env r ctx GoNil w = (w, None, False, False, Some IdNil)
   \<and> Delete env r ctx GoNil w = Some (w, False, Some IdNil)
   \<and> Create env r ctx None w = Some (w, False, Some EntityNil)
   \<and> Update env r ctx None w = Some (w, False, Some EntityNil)"
  by (simp add: FindByID_def Delete_def Create_def Update_def)

text \<open>
  C10, as the code has it. Called on a repository at address \<open>a\<close>, each chain method
  allocates one new cell, returns its address, and writes nothing else: every cell the heap
  had, the receiver's among them, is as before. The new repository is the receiver's with
  only \<open>db\<close> replaced, by the handle gorm returns; \<open>Limit\<close> and \<open>Offset\<close> pass 0 for a negative
  argument. Whatever handle the new repository holds, its cache keys are the receiver's:
  the two repositories read and write the same cache entries.
\<close>

theorem chain_methods_copy_receiver:
  assumes "a < length heap"
  shows "Preload env heap (Some a) associations
           = Some (heap @ [(heap ! a)\<lparr>db := foldl (h_Preload env) (db (heap ! a)) associations\<rparr>], Some (length heap))
       \<and> Joins env heap (Some a) q args
           = Some (heap @ [(heap ! a)\<lparr>db := h_Joins env (db (heap ! a)) q args\<rparr>], Some (length heap))
       \<and> Order env heap (Some a) v
           = Some (heap @ [(heap ! a)\<lparr>db := h_Order env (db (heap ! a)) v\<rparr>], Some (length heap))
       \<and> Limit env heap (Some a) n
           = Some (heap @ [(heap ! a)\<lparr>db := h_Limit env (db (heap ! a)) (max 0 n)\<rparr>], Some (length heap))
       \<and> Offset env heap (Some a) n
           = Some (heap @ [(heap ! a)\<lparr>db := h_Offset env (db (heap ! a)) (max 0 n)\<rparr>], Some (length heap))
       \<and> length heap \<noteq> a
       \<and> (\<forall>x. deref (heap @ [x]) (Some a) = deref heap (Some a) \<and> take (length heap) (heap @ [x]) = heap)
       \<and> (\<forall>x. deref (heap @ [x]) (Some a) = Some (heap ! a))
       \<and> (\<forall>h operation suffix.
             generateCacheKey ((heap ! a)\<lparr>db := h\<rparr>) operation suffix
               = generateCacheKey (heap ! a) operation suffix)
       \<and> (\<forall>h operation qu qargs.
             generateCacheKeyFromQuery env ((heap ! a)\<lparr>db := h\<rparr>) operation qu qargs
               = generateCacheKeyFromQuery env (heap ! a) operation qu qargs)
       \<and> (\<forall>h. redis ((heap ! a)\<lparr>db := h\<rparr>) = redis (heap ! a)
               \<and> dbManager ((heap ! a)\<lparr>db := h\<rparr>) = dbManager (heap ! a))"
  using assms
  by (simp add: Preload_def Joins_def Order_def Limit_def Offset_def deref_def nth_append max_def
      generateCacheKey_def generateCacheKeyFromQuery_def)

theorem chain_methods_copy_receiver_witness:
  "Limit demo_env [demo_repo] (Some 0) (- 5) = Some ([demo_repo, demo_repo\<lparr>db := [''LIMIT 0'']\<rparr>], Some 1)
   \<and> Offset demo_env [demo_repo] (Some 0) 3 = Some ([demo_repo, demo_repo\<lparr>db := [''OFFSET 3'']\<rparr>], Some 1)
   \<and> Preload demo_env [demo_repo] (Some 0) [''Orders'']
       = Some ([demo_repo, demo_repo\<lparr>db := [''PRELOAD Orders'']\<rparr>], Some 1)
   \<and> generateCacheKey (demo_repo\<lparr>db := [''LIMIT 0'']\<rparr>) ''find_all'' [] = ''sql4go:shop:users:find_all''"
proof -
  have l: "(0::nat) < length [demo_repo]" by simp
  have i: "Itoa 0 = ''0''" "Itoa 3 = ''3''" by code_simp+
  have d: "db demo_repo = []" by (simp add: demo_repo_def)
  have k: "generateCacheKey demo_repo ''find_all'' [] = ''sql4go:shop:users:find_all''"
    by (simp add: generateCacheKey_def demo_repo_def cacheKeyPrefix_def cacheKeySeparator_def)
  from chain_methods_copy_receiver [OF l, of demo_env "[''Orders'']" _ _ _ "- 5"]
    chain_methods_copy_receiver [OF l, of demo_env "[''Orders'']" _ _ _ 3] k
  show ?thesis by (simp add: demo_env_def i d)
qed

text \<open>
  The claim as written fails in its consequence: a chained query does alter what a later
  operation on the original repository returns. \<open>FindAll\<close> on the original gives both rows,
  from the database and then from the cache. After \<open>Limit 1\<close> and a \<open>FindAll\<close> on the chained
  repository, which caches its one row under the shared key, \<open>FindAll\<close> on the original
  gives that one row as a cache hit.
\<close>

theorem chained_query_shares_cache:
  "Limit cache_env [demo_repo] (Some 0) 1 = Some ([demo_repo, demo_repo\<lparr>db := [''LIMIT 1'']\<rparr>], Some 1)
   \<and> outcome (FindAll cache_env demo_repo background demo_world) = (Some [''alice'', ''bob''], False, None)
   \<and> outcome (FindAll cache_env demo_repo background
                 (fst (FindAll cache_env demo_repo background demo_world)))
       = (Some [''alice'', ''bob''], True, None)
   \<and> outcome (FindAll cache_env (demo_repo\<lparr>db := [''LIMIT 1'']\<rparr>) background demo_world)
       = (Some [''alice''], False, None)
   \<and> outcome (FindAll cache_env demo_repo background
                 (fst (FindAll cache_env (demo_repo\<lparr>db := [''LIMIT 1'']\<rparr>) background demo_world)))
       = (Some [''alice''], True, None)"
  by code_simp

section \<open>Error propagation in the repository\<close>

lemma FindByID_cache_error:
  assumes "redis r" "ctx_err (withQueryTimeout env r ctx) = None"
    and "h = h_WithContext env (db r) (withQueryTimeout env r ctx)" "ident \<noteq> GoNil"
    and "GetValue env (mgr w) (generateCacheKey r ''find_by_id'' (fmt_v ident)) = (m1, Inl e)"
  shows "outcome (FindByID env r ctx ident w)
         = (case snd (db_First env h ident (dbs w)) of
              Inr row \<Rightarrow> (Some row, False, None)
            | Inl dberr \<Rightarrow> if dberr = ErrRecordNotFound then (None, False, None)
                           else (None, False, Some (DatabaseError dberr)))"
  using assms
  by (cases "db_First env h ident (dbs w)")
     (auto simp: FindByID_def outcome_def Let_def
           split: option.splits sum.splits prod.splits)

lemma FindAll_cache_error:
  assumes "redis r" "ctx_err (withQueryTimeout env r ctx) = None"
    and "h = h_WithContext env (db r) (withQueryTimeout env r ctx)"
    and "GetLargeValue env (mgr w) (generateCacheKey r ''find_all'' []) = (m1, Inl e)"
  shows "outcome (FindAll env r ctx w)
         = (case snd (db_Find env h (dbs w)) of
              Inr rows \<Rightarrow> (Some rows, False, None)
            | Inl dberr \<Rightarrow> (None, False, Some (DatabaseError dberr)))"
  using assms
  by (cases "db_Find env h (dbs w)")
     (auto simp: FindAll_def outcome_def Let_def
           split: option.splits sum.splits prod.splits)

lemma FindWhere_cache_error:
  assumes "redis r" "ctx_err (withQueryTimeout env r ctx) = None"
    and "h = h_WithContext env (db r) (withQueryTimeout env r ctx)" "q \<noteq> QGormDB"
    and "GetLargeValue env (mgr w) (generateCacheKeyFromQuery env r ''find_where'' q args) = (m1, Inl e)"
  shows "outcome (FindWhere env r ctx q args w)
         = (case snd (db_WhereFind env h q args (dbs w)) of
              Inr rows \<Rightarrow> (Some rows, False, None)
            | Inl dberr \<Rightarrow> (None, False, Some (DatabaseError dberr)))"
  using assms
  by (cases "db_WhereFind env h q args (dbs w)")
     (auto simp: FindWhere_def outcome_def Let_def
           split: option.splits sum.splits prod.splits)

lemma First_cache_error:
  assumes "redis r" "ctx_err (withQueryTimeout env r ctx) = None"
    and "h = h_WithContext env (db r) (withQueryTimeout env r ctx)" "q \<noteq> QGormDB"
    and "GetValue env (mgr w) (generateCacheKeyFromQuery env r ''first'' q args) = (m1, Inl e)"
  shows "outcome (First env r ctx q args w)
         = (case snd (db_WhereFirst env h q args (dbs w)) of
              Inr row \<Rightarrow> (Some row, False, None)
            | Inl dberr \<Rightarrow> if dberr = ErrRecordNotFound then (None, False, None)
                           else (None, False, Some (DatabaseError dberr)))"
  using assms
  by (cases "db_WhereFirst env h q args (dbs w)")
     (auto simp: First_def outcome_def Let_def
           split: option.splits sum.splits prod.splits)

lemma Count_cache_error:
  assumes "redis r" "ctx_err (withQueryTimeout env r ctx) = None"
    and "h = h_WithContext env (db r) (withQueryTimeout env r ctx)"
    and "GetValueCount env (mgr w) (generateCacheKey r ''count'' []) = (m1, Inl e)"
  shows "outcome (Count env r ctx w)
         = (case snd (db_Count env h (dbs w)) of
              Inr n \<Rightarrow> (n, False, None)
            | Inl dberr \<Rightarrow> (0, False, Some (DatabaseError dberr)))"
  using assms
  by (cases "db_Count env h (dbs w)")
     (auto simp: Count_def outcome_def Let_def
           split: option.splits sum.splits prod.splits)

lemma repo_Exists_cache_error:
  assumes "redis r" "ctx_err (withQueryTimeout env r ctx) = None"
    and "h = h_WithContext env (db r) (withQueryTimeout env r ctx)" "ident \<noteq> GoNil"
    and "GetValue env (mgr w) (generateCacheKey r ''find_by_id'' (fmt_v ident)) = (m1, Inl e)"
  shows "outcome (repo_Exists env r ctx ident w)
         = (case snd (db_First env h ident (dbs w)) of
              Inr row \<Rightarrow> (True, False, None)
            | Inl dberr \<Rightarrow> if dberr = ErrRecordNotFound then (False, False, None)
                           else (False, False, Some (DatabaseError dberr)))"
  using FindByID_cache_error [OF assms]
  by (cases "FindByID env r ctx ident w")
     (auto simp: repo_Exists_def outcome_def split: option.splits sum.splits if_splits)

lemma write_store_failure:
  assumes "h = h_WithContext env (db r) (withQueryTimeout env r ctx)"
  shows "db_Create env h e (dbs w) = (d1, Inl err)
     \<Longrightarrow> Create env r ctx (Some e) w = Some (w\<lparr>dbs := d1\<rparr>, False, Some (DatabaseError err))"
    and "db_Save env h e (dbs w) = (d1, Inl err)
     \<Longrightarrow> Update env r ctx (Some e) w = Some (w\<lparr>dbs := d1\<rparr>, False, Some (DatabaseError err))"
    and "ident \<noteq> GoNil \<Longrightarrow> db_First env h ident (dbs w) = (d1, Inl err) \<Longrightarrow> err \<noteq> ErrRecordNotFound
     \<Longrightarrow> Delete env r ctx ident w = Some (w\<lparr>dbs := d1\<rparr>, False, Some (DatabaseFindError err))"
    and "ident \<noteq> GoNil \<Longrightarrow> db_First env h ident (dbs w) = (d1, Inr e) \<Longrightarrow> db_Delete env h e d1 = (d2, Some err)
     \<Longrightarrow> Delete env r ctx ident w = Some (w\<lparr>dbs := d2\<rparr>, False, Some (DatabaseError err))"
    and "es \<noteq> [] \<Longrightarrow> db_CreateBatch env h es (dbs w) = (d1, Inl err)
     \<Longrightarrow> CreateBatch env r ctx es w = Some (w\<lparr>dbs := d1\<rparr>, Some (BatchCreateError err))"
    and "es \<noteq> [] \<Longrightarrow> db_SaveBatch env h es (dbs w) = (d1, Inl err)
     \<Longrightarrow> UpdateBatch env r ctx es w = Some (w\<lparr>dbs := d1\<rparr>, Some (BatchUpdateError err))"
  using assms by (simp_all add: Create_def Update_def Delete_def CreateBatch_def UpdateBatch_def)

text \<open>
  C8. Reads, with a cache configured, once the context the read derives with
  \<open>withQueryTimeout\<close> has passed the check that comes before the cache check: whenever the
  cache helper returns an error at the cache check, whichever error it is, the caller gets
  what the database query gives: the rows and no error, or "not found" and no error, or the
  database's own error. The cache error is never returned, and the result is never reported
  as a hit. \<open>h\<close> is the query handle under that context, and \<open>checked\<close> says that a cache
  is configured and the context check was passed.
  Writes: whenever the database statement fails, the caller gets that failure, and the
  world returned differs from the one given in the database state only, so the manager has
  seen no invalidation.
\<close>

theorem error_propagation_policy:
  assumes "h = h_WithContext env (db r) (withQueryTimeout env r ctx)"
    and "checked = (redis r \<and> ctx_err (withQueryTimeout env r ctx) = None)"
  shows "(\<forall>m1 e. checked \<and> ident \<noteq> GoNil
            \<and> GetValue env (mgr w) (generateCacheKey r ''find_by_id'' (fmt_v ident)) = (m1, Inl e)
          \<longrightarrow> outcome (FindByID env r ctx ident w)
                = (case snd (db_First env h ident (dbs w)) of
                     Inr row \<Rightarrow> (Some row, False, None)
                   | Inl dberr \<Rightarrow> if dberr = ErrRecordNotFound then (None, False, None)
                                  else (None, False, Some (DatabaseError dberr)))
              \<and> outcome (repo_Exists env r ctx ident w)
                = (case snd (db_First env h ident (dbs w)) of
                     Inr row \<Rightarrow> (True, False, None)
                   | Inl dberr \<Rightarrow> if dberr = ErrRecordNotFound then (False, False, None)
                                  else (False, False, Some (DatabaseError dberr))))
       \<and> (\<forall>m1 e. checked \<and> GetLargeValue env (mgr w) (generateCacheKey r ''find_all'' []) = (m1, Inl e)
          \<longrightarrow> outcome (FindAll env r ctx w)
                = (case snd (db_Find env h (dbs w)) of
                     Inr rows \<Rightarrow> (Some rows, False, None)
                   | Inl dberr \<Rightarrow> (None, False, Some (DatabaseError dberr))))
       \<and> (\<forall>m1 e. checked \<and> q \<noteq> QGormDB
            \<and> GetLargeValue env (mgr w) (generateCacheKeyFromQuery env r ''find_where'' q args) = (m1, Inl e)
          \<longrightarrow> outcome (FindWhere env r ctx q args w)
                = (case snd (db_WhereFind env h q args (dbs w)) of
                     Inr rows \<Rightarrow> (Some rows, False, None)
                   | Inl dberr \<Rightarrow> (None, False, Some (DatabaseError dberr))))
       \<and> (\<forall>m1 e. checked \<and> q \<noteq> QGormDB
            \<and> GetValue env (mgr w) (generateCacheKeyFromQuery env r ''first'' q args) = (m1, Inl e)
          \<longrightarrow> outcome (First env r ctx q args w)
                = (case snd (db_WhereFirst env h q args (dbs w)) of
                     Inr row \<Rightarrow> (Some row, False, None)
                   | Inl dberr \<Rightarrow> if dberr = ErrRecordNotFound then (None, False, None)
                                  else (None, False, Some (DatabaseError dberr))))
       \<and> (\<forall>m1 e. checked \<and> GetValueCount env (mgr w) (generateCacheKey r ''count'' []) = (m1, Inl e)
          \<longrightarrow> outcome (Count env r ctx w)
                = (case snd (db_Count env h (dbs w)) of
                     Inr n \<Rightarrow> (n, False, None)
                   | Inl dberr \<Rightarrow> (0, False, Some (DatabaseError dberr))))
       \<and> (\<forall>d1 err. db_Create env h ent (dbs w) = (d1, Inl err)
          \<longrightarrow> Create env r ctx (Some ent) w = Some (w\<lparr>dbs := d1\<rparr>, False, Some (DatabaseError err)))
       \<and> (\<forall>d1 err. db_Save env h ent (dbs w) = (d1, Inl err)
          \<longrightarrow> Update env r ctx (Some ent) w = Some (w\<lparr>dbs := d1\<rparr>, False, Some (DatabaseError err)))
       \<and> (\<forall>d1 err. ident \<noteq> GoNil \<and> db_First env h ident (dbs w) = (d1, Inl err) \<and> err \<noteq> ErrRecordNotFound
          \<longrightarrow> Delete env r ctx ident w = Some (w\<lparr>dbs := d1\<rparr>, False, Some (DatabaseFindError err)))
       \<and> (\<forall>d1 d2 found err. ident \<noteq> GoNil \<and> db_First env h ident (dbs w) = (d1, Inr found)
            \<and> db_Delete env h found d1 = (d2, Some err)
          \<longrightarrow> Delete env r ctx ident w = Some (w\<lparr>dbs := d2\<rparr>, False, Some (DatabaseError err)))
       \<and> (\<forall>d1 err. ents \<noteq> [] \<and> db_CreateBatch env h ents (dbs w) = (d1, Inl err)
          \<longrightarrow> CreateBatch env r ctx ents w = Some (w\<lparr>dbs := d1\<rparr>, Some (BatchCreateError err)))
       \<and> (\<forall>d1 err. ents \<noteq> [] \<and> db_SaveBatch env h ents (dbs w) = (d1, Inl err)
          \<longrightarrow> UpdateBatch env r ctx ents w = Some (w\<lparr>dbs := d1\<rparr>, Some (BatchUpdateError err)))"
proof -
  have c: "redis r" "ctx_err (withQueryTimeout env r ctx) = None" if checked
    using that assms(2) by simp_all
  show ?thesis
  proof (intro conjI allI impI)
    fix m1 e
    assume g: "checked \<and> ident \<noteq> GoNil
                \<and> GetValue env (mgr w) (generateCacheKey r ''find_by_id'' (fmt_v ident)) = (m1, Inl e)"
    then have k: checked by simp
    from g show "outcome (FindByID env r ctx ident w)
                = (case snd (db_First env h ident (dbs w)) of
                     Inr row \<Rightarrow> (Some row, False, None)
                   | Inl dberr \<Rightarrow> if dberr = ErrRecordNotFound then (None, False, None)
                                  else (None, False, Some (DatabaseError dberr)))"
      using FindByID_cache_error [OF c [OF k] assms(1), of ident w m1 e] by simp
    from g show "outcome (repo_Exists env r ctx ident w)
                = (case snd (db_First env h ident (dbs w)) of
                     Inr row \<Rightarrow> (True, False, None)
                   | Inl dberr \<Rightarrow> if dberr = ErrRecordNotFound then (False, False, None)
                                  else (False, False, Some (DatabaseError dberr)))"
      using repo_Exists_cache_error [OF c [OF k] assms(1), of ident w m1 e] by simp
  next
    fix m1 e
    assume g: "checked \<and> GetLargeValue env (mgr w) (generateCacheKey r ''find_all'' []) = (m1, Inl e)"
    then have k: checked by simp
    from g FindAll_cache_error [OF c [OF k] assms(1), of w m1 e]
    show "outcome (FindAll env r ctx w)
                = (case snd (db_Find env h (dbs w)) of
                     Inr rows \<Rightarrow> (Some rows, False, None)
                   | Inl dberr \<Rightarrow> (None, False, Some (DatabaseError dberr)))"
      by simp
  next
    fix m1 e
    assume g: "checked \<and> q \<noteq> QGormDB
            \<and> GetLargeValue env (mgr w) (generateCacheKeyFromQuery env r ''find_where'' q args) = (m1, Inl e)"
    then have k: checked by simp
    from g FindWhere_cache_error [OF c [OF k] assms(1), of q w args m1 e]
    show "outcome (FindWhere env r ctx q args w)
                = (case snd (db_WhereFind env h q args (dbs w)) of
                     Inr rows \<Rightarrow> (Some rows, False, None)
                   | Inl dberr \<Rightarrow> (None, False, Some (DatabaseError dberr)))"
      by simp
  next
    fix m1 e
    assume g: "checked \<and> q \<noteq> QGormDB
            \<and> GetValue env (mgr w) (generateCacheKeyFromQuery env r ''first'' q args) = (m1, Inl e)"
    then have k: checked by simp
    from g First_cache_error [OF c [OF k] assms(1), of q w args m1 e]
    show "outcome (First env r ctx q args w)
                = (case snd (db_WhereFirst env h q args (dbs w)) of
                     Inr row \<Rightarrow> (Some row, False, None)
                   | Inl dberr \<Rightarrow> if dberr = ErrRecordNotFound then (None, False, None)
                                  else (None, False, Some (DatabaseError dberr)))"
      by simp
  next
    fix m1 e
    assume g: "checked \<and> GetValueCount env (mgr w) (generateCacheKey r ''count'' []) = (m1, Inl e)"
    then have k: checked by simp
    from g Count_cache_error [OF c [OF k] assms(1), of w m1 e]
    show "outcome (Count env r ctx w)
                = (case snd (db_Count env h (dbs w)) of
                     Inr n \<Rightarrow> (n, False, None)
                   | Inl dberr \<Rightarrow> (0, False, Some (DatabaseError dberr)))"
      by simp
  qed (simp_all add: write_store_failure [OF assms(1)])
qed

theorem error_propagation_policy_witness:
  "outcome (FindByID demo_env demo_repo background (GoInt 1) demo_world) = (Some ''alice'', False, None)
   \<and> outcome (Count demo_env demo_repo background demo_world) = (1, False, None)
   \<and> Update demo_env demo_repo background (Some ''bob'') demo_world
       = Some (demo_world\<lparr>dbs := 1\<rparr>, False, Some (DatabaseError (DbError ''deadlock'')))
   \<and> Create demo_env demo_repo background (Some ''bob'') demo_world
       = Some (demo_world\<lparr>dbs := 1\<rparr>, False, Some (DatabaseError (DbError ''duplicate entry'')))
   \<and> Delete demo_env demo_repo background (GoInt 1) demo_world
       = Some (demo_world\<lparr>dbs := 2\<rparr>, False, Some (DatabaseError (DbError ''row is locked'')))
   \<and> FindByID demo_env (demo_repo\<lparr>dbManager := Some 1\<rparr>) background (GoInt 1) demo_world
       = (demo_world, None, False, False, Some (ContextCancelled ''context deadline exceeded''))"
proof -
  have q: "withQueryTimeout demo_env demo_repo background = background"
    by (simp add: withQueryTimeout_def demo_env_def demo_repo_def background_def)
  have a: "redis demo_repo" "ctx_err (withQueryTimeout demo_env demo_repo background) = None"
    "db demo_repo = h_WithContext demo_env (db demo_repo) (withQueryTimeout demo_env demo_repo background)"
    unfolding q by (simp_all add: demo_repo_def background_def demo_env_def)
  have g: "GetValue demo_env (mgr demo_world) k = (small_manager, Inl (RedisGetError ConnError))"
    "GetValueCount demo_env (mgr demo_world) k = (small_manager, Inl (RedisGetError ConnError))" for k
    by (simp_all add: demo_env_def demo_world_def)
  have d: "db_First demo_env (db demo_repo) (GoInt 1) (dbs demo_world) = (1, Inr ''alice'')"
    "db_Count demo_env (db demo_repo) (dbs demo_world) = (1, Inr 1)"
    "db_Save demo_env (db demo_repo) ''bob'' (dbs demo_world) = (1, Inl (DbError ''deadlock''))"
    "db_Create demo_env (db demo_repo) ''bob'' (dbs demo_world) = (1, Inl (DbError ''duplicate entry''))"
    "db_Delete demo_env (db demo_repo) ''alice'' 1 = (2, Some (DbError ''row is locked''))"
    by (simp_all add: demo_env_def demo_world_def)
  have x: "FindByID demo_env (demo_repo\<lparr>dbManager := Some 1\<rparr>) background (GoInt 1) demo_world
       = (demo_world, None, False, False, Some (ContextCancelled ''context deadline exceeded''))"
    by (simp add: FindByID_def withQueryTimeout_def demo_env_def demo_repo_def background_def)
  from error_propagation_policy [OF a(3) refl, where ident = "GoInt 1" and w = demo_world and ent = "''bob''"]
    a(1,2) g d x
  show ?thesis by simp
qed

theorem nil_inputs_rejected_witness:
  "FindByID demo_env demo_repo background GoNil demo_world = (demo_world, None, False, False, Some IdNil)
   \<and> Update demo_env demo_repo background None demo_world = Some (demo_world, False, Some EntityNil)"
  using nil_inputs_rejected [of demo_env demo_repo background demo_world] by simp

section \<open>The round trip on a key without leftover metadata\<close>

lemma upto_as_upt: "[0..int k - 1] = map int [0..<k]"
proof (induction k)
  case 0
  then show ?case by simp
next
  case (Suc k)
  have "[0..int (Suc k) - 1] = [0..int k - 1] @ [int k]"
    using upto_rec2 [of 0 "int k"] by simp
  with Suc show ?case by simp
qed

lemma concat_takes: "concat (map (\<lambda>j. take c (drop (j * c) xs)) [0..<n]) = take (n * c) xs"
proof (induction n)
  case 0
  then show ?case by simp
next
  case (Suc n)
  have "take (n * c + c) xs = take (n * c) xs @ take c (drop (n * c) xs)"
    by (simp add: take_add)
  moreover have "Suc n * c = n * c + c" by simp
  ultimately have "take (Suc n * c) xs = take (n * c) xs @ take c (drop (n * c) xs)"
    by (simp only:)
  with Suc show ?case by simp
qed

lemma slice_as_take:
  assumes "0 < cs" "0 \<le> j"
  shows "slice data (j * cs) (min (j * cs + cs) (int (length data))) = take (nat cs) (drop (nat j * nat cs) data)"
proof -
  have n: "nat (j * cs) = nat j * nat cs" using assms by (simp add: nat_mult_distrib)
  show ?thesis
  proof (cases "j * cs + cs \<le> int (length data)")
    case True
    then show ?thesis by (simp add: slice_def n min_def)
  next
    case False
    then have "length (drop (nat j * nat cs) data) \<le> nat cs"
      using assms n by (simp add: nat_le_iff; linarith?)
    moreover have "length (drop (nat j * nat cs) data) \<le> nat (int (length data) - j * cs)"
      using assms n by (simp; linarith?)
    ultimately show ?thesis using False by (simp add: slice_def n min_def)
  qed
qed

lemma concat_slices:
  assumes "0 < cs"
  shows "concat (map (\<lambda>j. slice data (j * cs) (min (j * cs + cs) (int (length data))))
                     [0..(int (length data) + cs - 1) div cs - 1]) = data"
proof -
  let ?n = "(int (length data) + cs - 1) div cs"
  have n0: "0 \<le> ?n" using assms by (simp add: pos_imp_zdiv_nonneg_iff)
  then have up: "[0..?n - 1] = map int [0..<nat ?n]" using upto_as_upt [of "nat ?n"] by simp
  have "int (length data) \<le> ?n * cs"
  proof -
    have "(int (length data) + cs - 1) mod cs < cs" using assms by simp
    moreover have "?n * cs = (int (length data) + cs - 1) - (int (length data) + cs - 1) mod cs"
      by (simp add: minus_mod_eq_div_mult)
    ultimately show ?thesis by linarith
  qed
  then have cover: "length data \<le> nat ?n * nat cs"
    using assms n0 by (metis nat_int nat_mono nat_mult_distrib)
  have "concat (map (\<lambda>j. slice data (j * cs) (min (j * cs + cs) (int (length data)))) [0..?n - 1])
        = concat (map (\<lambda>j. take (nat cs) (drop (j * nat cs) data)) [0..<nat ?n])"
    unfolding up by (simp add: comp_def slice_as_take [OF assms])
  also have "\<dots> = take (nat ?n * nat cs) data" by (rule concat_takes)
  also have "\<dots> = data" using cover by simp
  finally show ?thesis .
qed

lemma chunk_count_bound:
  assumes "0 < cs"
  shows "(int (length data) + cs - 1) div cs \<le> int (length data)"
proof (cases "length data = 0")
  case True
  with assms show ?thesis by simp
next
  case False
  then have "int (length data) + cs - 1 < (int (length data) + 1) * cs"
  proof -
    have "1 \<le> int (length data)" using False by (cases data) auto
    then have "int (length data) \<le> int (length data) * cs"
      using assms by (simp add: mult_le_cancel_left1)
    then show ?thesis by (simp add: algebra_simps)
  qed
  moreover have "(int (length data) + cs - 1) div cs * cs \<le> int (length data) + cs - 1"
  proof -
    have "0 \<le> (int (length data) + cs - 1) mod cs" using assms by simp
    moreover have "(int (length data) + cs - 1) div cs * cs
                   = (int (length data) + cs - 1) - (int (length data) + cs - 1) mod cs"
      by (simp add: minus_mod_eq_div_mult)
    ultimately show ?thesis by linarith
  qed
  ultimately have "(int (length data) + cs - 1) div cs * cs < (int (length data) + 1) * cs"
    by linarith
  then have "(int (length data) + cs - 1) div cs < int (length data) + 1"
    using assms by (simp add: mult_less_cancel_right)
  then show ?thesis by simp
qed

lemma SetLarge_plan:
  assumes "checkClient m = None"
    and "getLargeValueConfig m = (maxSize, cs, thr, ec, ech)"
    and "int (length v) \<le> maxSize" and "gzip_write gz v = Inr z"
    and "b = (ec \<and> thr < int (length v) \<and> length z < length v)"
    and "pv = (if b then z else v)"
  shows "\<exists>m2. config m2 = config m \<and> client m2 = client m
              \<and> SetLarge gz m key v
                  = (if ech \<and> cs < int (length pv) then setChunked m2 key pv b cs
                     else setWithMetadata m2 key pv b False)"
proof -
  have nle: "\<not> maxSize < int (length v)" using assms(3) by simp
  show ?thesis
  proof (cases b)
    case True
    with assms(5,6) have pv: "pv = z" and c: "ec" "thr < int (length v)" "length z < length v" by simp_all
    let ?m1 = "m\<lparr>metrics := RecordCompression (metrics m) (of_nat (length v - length z))\<rparr>"
    show ?thesis
    proof (cases "ech \<and> cs < int (length pv)")
      case ch: True
      have "SetLarge gz m key v = setChunked (?m1\<lparr>metrics := RecordChunked (metrics ?m1)\<rparr>) key z True cs"
        using assms(1,2,4) nle c ch pv by (simp add: SetLarge_def compressData_def)
      with ch True pv show ?thesis
        by (intro exI [of _ "?m1\<lparr>metrics := RecordChunked (metrics ?m1)\<rparr>"]) simp
    next
      case ch: False
      have "SetLarge gz m key v = setWithMetadata ?m1 key z True False"
        using assms(1,2,4) nle c ch pv by (auto simp: SetLarge_def compressData_def)
      with ch True pv show ?thesis
        by (intro exI [of _ ?m1]) auto
    qed
  next
    case False
    with assms(5,6) have pv: "pv = v" and nc: "\<not> (ec \<and> thr < int (length v) \<and> length z < length v)" by simp_all
    show ?thesis
    proof (cases "ech \<and> cs < int (length pv)")
      case ch: True
      have "SetLarge gz m key v = setChunked (m\<lparr>metrics := RecordChunked (metrics m)\<rparr>) key v False cs"
        using assms(1,2,4) nle nc ch pv by (auto simp: SetLarge_def compressData_def)
      with ch False pv show ?thesis
        by (intro exI [of _ "m\<lparr>metrics := RecordChunked (metrics m)\<rparr>"]) simp
    next
      case ch: False
      have "SetLarge gz m key v = setWithMetadata m key v False False"
        using assms(1,2,4) nle nc ch pv by (auto simp: SetLarge_def compressData_def)
      with ch False pv show ?thesis
        by (intro exI [of _ m]) auto
    qed
  qed
qed

lemma setChunked_settled:
  assumes "client m = Some c" "faults c = []"
  shows "healthy (fst (setChunked m key data b cs))" "config (fst (setChunked m key data b cs)) = config m"
  using assms by (simp_all add: setChunked_def Let_def call_Exec_healthy healthy_def split: prod.splits)

lemma setWithMetadata_settled:
  assumes "Enabled (config m)" "client m = Some c" "faults c = []"
  shows "healthy (fst (setWithMetadata m key data b ch))" "config (fst (setWithMetadata m key data b ch)) = config m"
  using assms
  by (simp_all add: setWithMetadata_def Let_def call_Exec_healthy call_Do_healthy Set_def checkClient_def
      healthy_def split: prod.splits)

lemma Get_healthy:
  assumes "Enabled (config m)" "client m = Some c" "faults c = []" "map_option payload (keyspace c k) = Some (RString v)"
  shows "snd (Get m k) = Inr v"
  using assms
  by (auto simp: Get_def checkClient_def call_Get_healthy Let_def split: option.splits rvalue.splits)

lemma GetLarge_single_healthy:
  assumes "checkClient m = None" "healthy m"
    and "stored m (key @ cacheMetadataSuffix) = Some (RString ''single:true:1'')"
    and "stored m key = Some (RString z)"
  shows "snd (GetLarge gz m key) = decompressData gz z"
proof -
  from assms(1,2) obtain c where c: "Enabled (config m)" "client m = Some c" "faults c = []"
    by (auto simp: checkClient_None healthy_def split: option.splits)
  define c1 where "c1 = c\<lparr>issued := Suc (issued c)\<rparr>"
  define m1 where "m1 = m\<lparr>client := Some c1\<rparr>"
  define c2 where "c2 = c1\<lparr>issued := Suc (issued c1)\<rparr>"
  define m2 where "m2 = m1\<lparr>client := Some c2\<rparr>"
  have meta: "map_option payload (keyspace c (key @ cacheMetadataSuffix)) = Some (RString ''single:true:1'')"
    and base: "map_option payload (keyspace c key) = Some (RString z)"
    using assms(3,4) c by (simp_all add: stored_def store_Some)
  have i1: "isChunkedValue m key = (m1, Inr False)"
    using meta
    by (auto simp: isChunkedValue_def call_Get_healthy [OF c(2,3)] m1_def c1_def HasPrefix_def
        split: option.splits rvalue.splits)
  have cl1: "client m1 = Some c1" "faults c1 = []" by (simp_all add: m1_def c1_def c)
  have g1: "call m1 (client_Get (key @ cacheMetadataSuffix)) = (m2, Inr ''single:true:1'')"
    using meta
    by (auto simp: call_Get_healthy [OF cl1] m2_def c2_def c1_def split: option.splits rvalue.splits)
  have cl2: "Enabled (config m2)" "client m2 = Some c2" "faults c2 = []"
    by (simp_all add: m2_def m1_def c2_def c1_def c)
  have base2: "map_option payload (keyspace c2 key) = Some (RString z)"
    using base by (simp add: c2_def c1_def)
  have sp: "Split ''single:true:1'' CHR '':'' = [''single'', ''true'', ''1'']" by simp
  have g2: "snd (getWithMetadata m1 key) = Inr (z, True)"
    using g1 Get_healthy [OF cl2 base2] sp
    by (cases "Get m2 key") (simp add: getWithMetadata_def)
  from i1 g2 assms(1) show ?thesis
    by (cases "getWithMetadata m1 key") (simp add: GetLarge_def)
qed

lemma GetLarge_plain_healthy:
  assumes "checkClient m = None" "healthy m"
    and "store m (key @ cacheMetadataSuffix) = None"
    and "stored m key = Some (RString v)"
  shows "snd (GetLarge gz m key) = Inr v"
proof -
  from assms(1,2) obtain c where c: "Enabled (config m)" "client m = Some c" "faults c = []"
    by (auto simp: checkClient_None healthy_def split: option.splits)
  define c1 where "c1 = c\<lparr>issued := Suc (issued c)\<rparr>"
  define m1 where "m1 = m\<lparr>client := Some c1\<rparr>"
  define c2 where "c2 = c1\<lparr>issued := Suc (issued c1)\<rparr>"
  define m2 where "m2 = m1\<lparr>client := Some c2\<rparr>"
  have meta: "keyspace c (key @ cacheMetadataSuffix) = None"
    and base: "map_option payload (keyspace c key) = Some (RString v)"
    using assms(3,4) c by (simp_all add: stored_def store_Some)
  have i1: "isChunkedValue m key = (m1, Inr False)"
    using meta by (simp add: isChunkedValue_def call_Get_healthy [OF c(2,3)] m1_def c1_def)
  have cl1: "client m1 = Some c1" "faults c1 = []" by (simp_all add: m1_def c1_def c)
  have g1: "call m1 (client_Get (key @ cacheMetadataSuffix)) = (m2, Inl RedisNil)"
    using meta by (simp add: call_Get_healthy [OF cl1] m2_def c2_def c1_def)
  have cl2: "Enabled (config m2)" "client m2 = Some c2" "faults c2 = []"
    by (simp_all add: m2_def m1_def c2_def c1_def c)
  have base2: "map_option payload (keyspace c2 key) = Some (RString v)"
    using base by (simp add: c2_def c1_def)
  have g2: "snd (getWithMetadata m1 key) = Inr (v, False)"
    using g1 Get_healthy [OF cl2 base2]
    by (cases "Get m2 key") (simp add: getWithMetadata_def)
  from i1 g2 assms(1) show ?thesis
    by (cases "getWithMetadata m1 key") (simp add: GetLarge_def)
qed

lemma healthy_checkClient: "healthy m \<Longrightarrow> Enabled (config m) \<Longrightarrow> checkClient m = None"
  by (auto simp: healthy_def checkClient_def split: option.splits)

lemma FormatBool_true: "FormatBool b = ''true'' \<longleftrightarrow> b"
  by (simp add: FormatBool_def)

lemma FormatBool_no_colon: "CHR '':'' \<notin> set (FormatBool b)"
  by (simp add: FormatBool_def)

text \<open>
  On a key whose metadata key is absent, a value within the size limit that \<open>SetLarge\<close>
  stored is the value \<open>GetLarge\<close> returns, in each of the four combinations of compressed
  or not and chunked or not. The backend answers and gzip returns on reading what it wrote.
\<close>

lemma SetLarge_GetLarge_roundtrip:
  assumes "checkClient m = None" and "healthy m"
    and "int (length v) \<le> maxValueSize m" and "maxValueSize m < 2 ^ 63"
    and "gzip_write gz v = Inr z" and "gzip_read gz z = Inr v"
    and "store m (key @ cacheMetadataSuffix) = None"
  shows "snd (SetLarge gz m key v) = None \<and> snd (GetLarge gz (fst (SetLarge gz m key v)) key) = Inr v"
proof -
  from assms(1,2) obtain c where c: "Enabled (config m)" "client m = Some c" "faults c = []"
    by (auto simp: checkClient_None healthy_def split: option.splits)
  obtain maxSize cs thr ec ech where cfg: "getLargeValueConfig m = (maxSize, cs, thr, ec, ech)"
    by (cases "getLargeValueConfig m") auto
  have cs: "0 < cs" using cfg by (auto simp: getLargeValueConfig_def Let_def split: if_splits)
  have mx: "maxSize = maxValueSize m" using cfg by (simp add: maxValueSize_def)
  have ok: "snd (SetLarge gz m key v) = None"
    using SetLarge_healthy_ok [OF assms(1,2,3), of gz key] assms(5) by simp
  define b where "b = (ec \<and> thr < int (length v) \<and> length z < length v)"
  define pv where "pv = (if b then z else v)"
  from SetLarge_plan [OF assms(1) cfg _ assms(5) b_def pv_def, of key] assms(3) mx
  obtain m2 where m2: "config m2 = config m" "client m2 = client m"
    and eq: "SetLarge gz m key v
              = (if ech \<and> cs < int (length pv) then setChunked m2 key pv b cs
                 else setWithMetadata m2 key pv b False)"
    by auto
  have cl2: "Enabled (config m2)" "client m2 = Some c" using m2 c by simp_all
  have rt: "(if b then decompressData gz pv else Inr pv) = Inr v"
    using assms(6) by (simp add: pv_def decompressData_def)
  have len: "length pv \<le> length v" by (simp add: pv_def b_def)
  let ?m' = "fst (SetLarge gz m key v)"
  have "snd (GetLarge gz ?m' key) = Inr v"
  proof (cases "ech \<and> cs < int (length pv)")
    case True
    let ?n = "(int (length pv) + cs - 1) div cs"
    from True eq have m': "?m' = fst (setChunked m2 key pv b cs)" by simp
    have h': "healthy ?m'" and cf': "config ?m' = config m2"
      unfolding m' by (rule setChunked_settled [OF cl2(2) c(3)])+
    have chk: "checkClient ?m' = None"
      using healthy_checkClient [OF h'] cf' cl2(1) by simp
    have n0: "0 \<le> ?n" using cs by (simp add: pos_imp_zdiv_nonneg_iff)
    have "?n \<le> int (length pv)" by (rule chunk_count_bound [OF cs])
    with len assms(3,4) have n1: "?n < 2 ^ 63" by linarith
    have it: "Itoa ?n = Itoa_nat (nat ?n)" using n0 by (simp add: Itoa_def)
    have meta: "stored ?m' (key @ cacheMetadataSuffix) = Some (RString (''chunked:'' @ FormatBool b @ '':'' @ Itoa ?n))"
      unfolding m' by (rule setChunked_meta [OF cl2(2) c(3)])
    have chunks: "stored ?m' (chunkKey key i)
                  = Some (RString (slice pv (i * cs) (min (i * cs + cs) (int (length pv)))))"
      if "0 \<le> i" "i < ?n" for i
      unfolding m' by (rule setChunked_chunk [OF cl2(2) c(3) that])
    have nc: "CHR '':'' \<notin> set (Itoa ?n)" unfolding it by (rule Itoa_nat_no_colon)
    from GetLarge_chunked_healthy [OF chk h' meta FormatBool_no_colon nc Atoi_Itoa [OF n0 n1] chunks, of gz]
    have "snd (GetLarge gz ?m' key) = (if b then decompressData gz pv else Inr pv)"
      by (simp add: FormatBool_true concat_slices [OF cs])
    with rt show ?thesis by simp
  next
    case False
    with eq have m': "?m' = fst (setWithMetadata m2 key pv b False)" by simp
    have h': "healthy ?m'" and cf': "config ?m' = config m2"
      unfolding m' by (rule setWithMetadata_settled [OF cl2 c(3)])+
    have chk: "checkClient ?m' = None"
      using healthy_checkClient [OF h'] cf' cl2(1) by simp
    show ?thesis
    proof (cases b)
      case True
      have "stored ?m' key = Some (RString pv)"
        and "stored ?m' (key @ cacheMetadataSuffix) = Some (RString ''single:true:1'')"
        unfolding m' using setWithMetadata_compressed_store [OF cl2(2) c(3), of key pv False] True by simp_all
      from GetLarge_single_healthy [OF chk h' this(2,1), of gz] rt True show ?thesis by simp
    next
      case nb: False
      have base: "stored ?m' key = Some (RString pv)"
        unfolding m' using setWithMetadata_plain_store(1) [OF cl2 c(3), of key pv False] nb by simp
      have "store ?m' (key @ cacheMetadataSuffix) = store m2 (key @ cacheMetadataSuffix)"
        unfolding m' using setWithMetadata_plain_store(2) [OF cl2 c(3), of "key @ cacheMetadataSuffix" key pv False]
          nb meta_neq_key [of key] by simp
      also have "\<dots> = None" using assms(7) m2(2) by (simp add: store_def)
      finally have nometa: "store ?m' (key @ cacheMetadataSuffix) = None" .
      from GetLarge_plain_healthy [OF chk h' nometa base, of gz] rt nb show ?thesis by simp
    qed
  qed
  with ok show ?thesis by simp
qed

section \<open>What SetLarge leaves in the store, and what GetLarge makes of it\<close>

lemma SetLarge_layout:
  assumes "checkClient m = None" "healthy m"
    and "getLargeValueConfig m = (maxSize, cs, thr, ec, ech)"
    and "int (length v) \<le> maxSize" and "gzip_write gz v = Inr z"
    and "b = (ec \<and> thr < int (length v) \<and> length z < length v)"
    and "pv = (if b then z else v)"
    and "m' = fst (SetLarge gz m key v)"
  shows "snd (SetLarge gz m key v) = None"
    and "healthy m'" and "checkClient m' = None"
    and "ech \<and> cs < int (length pv) \<Longrightarrow>
           stored m' (key @ cacheMetadataSuffix)
             = Some (RString (''chunked:'' @ FormatBool b @ '':'' @ Itoa ((int (length pv) + cs - 1) div cs)))"
    and "ech \<and> cs < int (length pv) \<Longrightarrow> 0 \<le> i \<Longrightarrow> i < (int (length pv) + cs - 1) div cs \<Longrightarrow>
           stored m' (chunkKey key i)
             = Some (RString (slice pv (i * cs) (min (i * cs + cs) (int (length pv)))))"
    and "\<not> (ech \<and> cs < int (length pv)) \<Longrightarrow> stored m' key = Some (RString pv)"
    and "\<not> (ech \<and> cs < int (length pv)) \<Longrightarrow> b \<Longrightarrow>
           stored m' (key @ cacheMetadataSuffix) = Some (RString ''single:true:1'')"
    and "\<not> (ech \<and> cs < int (length pv)) \<Longrightarrow> \<not> b \<Longrightarrow>
           store m' (key @ cacheMetadataSuffix) = store m (key @ cacheMetadataSuffix)"
proof -
  from assms(1,2) obtain c where c: "Enabled (config m)" "client m = Some c" "faults c = []"
    by (auto simp: checkClient_None healthy_def split: option.splits)
  have mx: "maxSize = maxValueSize m" using assms(3) by (simp add: maxValueSize_def)
  show ok: "snd (SetLarge gz m key v) = None"
    using SetLarge_healthy_ok [OF assms(1,2), of v gz key] assms(4,5) mx by simp
  from SetLarge_plan [OF assms(1,3,4,5,6,7), of key]
  obtain m2 where m2: "config m2 = config m" "client m2 = client m"
    and eq: "SetLarge gz m key v
              = (if ech \<and> cs < int (length pv) then setChunked m2 key pv b cs
                 else setWithMetadata m2 key pv b False)"
    by auto
  have cl2: "Enabled (config m2)" "client m2 = Some c" using m2 c by simp_all
  have ch: "m' = fst (setChunked m2 key pv b cs)" if "ech \<and> cs < int (length pv)"
    using that eq assms(8) by simp
  have sg: "m' = fst (setWithMetadata m2 key pv b False)" if "\<not> (ech \<and> cs < int (length pv))"
    using that eq assms(8) by auto
  show h': "healthy m'"
  proof (cases "ech \<and> cs < int (length pv)")
    case True
    show ?thesis unfolding ch [OF True] by (rule setChunked_settled [OF cl2(2) c(3)])
  next
    case False
    show ?thesis unfolding sg [OF False] by (rule setWithMetadata_settled [OF cl2 c(3)])
  qed
  have "config m' = config m2"
  proof (cases "ech \<and> cs < int (length pv)")
    case True
    show ?thesis unfolding ch [OF True] by (rule setChunked_settled [OF cl2(2) c(3)])
  next
    case False
    show ?thesis unfolding sg [OF False] by (rule setWithMetadata_settled [OF cl2 c(3)])
  qed
  with healthy_checkClient [OF h'] cl2(1) show "checkClient m' = None" by simp
  show "stored m' (key @ cacheMetadataSuffix)
          = Some (RString (''chunked:'' @ FormatBool b @ '':'' @ Itoa ((int (length pv) + cs - 1) div cs)))"
    if "ech \<and> cs < int (length pv)"
    unfolding ch [OF that] by (rule setChunked_meta [OF cl2(2) c(3)])
  show "stored m' (chunkKey key i) = Some (RString (slice pv (i * cs) (min (i * cs + cs) (int (length pv)))))"
    if "ech \<and> cs < int (length pv)" "0 \<le> i" "i < (int (length pv) + cs - 1) div cs"
    unfolding ch [OF that(1)] by (rule setChunked_chunk [OF cl2(2) c(3) that(2,3)])
  show "stored m' key = Some (RString pv)" if "\<not> (ech \<and> cs < int (length pv))"
  proof (cases b)
    case True
    show ?thesis unfolding sg [OF that]
      using setWithMetadata_compressed_store(1) [OF cl2(2) c(3), of key pv False] True by simp
  next
    case False
    show ?thesis unfolding sg [OF that]
      using setWithMetadata_plain_store(1) [OF cl2 c(3), of key pv False] False by simp
  qed
  show "stored m' (key @ cacheMetadataSuffix) = Some (RString ''single:true:1'')"
    if "\<not> (ech \<and> cs < int (length pv))" b
    unfolding sg [OF that(1)]
    using setWithMetadata_compressed_store(2) [OF cl2(2) c(3), of key pv False] that(2) by simp
  show "store m' (key @ cacheMetadataSuffix) = store m (key @ cacheMetadataSuffix)"
    if "\<not> (ech \<and> cs < int (length pv))" "\<not> b"
  proof -
    have "store m' (key @ cacheMetadataSuffix) = store m2 (key @ cacheMetadataSuffix)"
      unfolding sg [OF that(1)]
      using setWithMetadata_plain_store(2) [OF cl2 c(3), of "key @ cacheMetadataSuffix" key pv False]
        that(2) meta_neq_key [of key] by simp
    also have "\<dots> = store m (key @ cacheMetadataSuffix)" using m2(2) by (simp add: store_def)
    finally show ?thesis .
  qed
qed

lemma GetLarge_after_SetLarge:
  assumes "checkClient m = None" "healthy m"
    and "getLargeValueConfig m = (maxSize, cs, thr, ec, ech)"
    and "int (length v) \<le> maxSize" and "maxSize < 2 ^ 63" and "gzip_write gz v = Inr z"
    and "b = (ec \<and> thr < int (length v) \<and> length z < length v)"
    and "pv = (if b then z else v)"
    and "m' = fst (SetLarge gz m key v)"
    and "(ech \<and> cs < int (length pv)) \<or> b \<or> store m (key @ cacheMetadataSuffix) = None"
  shows "snd (GetLarge gz m' key) = (if b then decompressData gz pv else Inr pv)"
proof -
  note L = SetLarge_layout [OF assms(1,2,3,4,6,7,8,9)]
  have cs: "0 < cs" using assms(3) by (auto simp: getLargeValueConfig_def Let_def split: if_splits)
  have len: "length pv \<le> length v" using assms(7,8) by simp
  show ?thesis
  proof (cases "ech \<and> cs < int (length pv)")
    case True
    let ?n = "(int (length pv) + cs - 1) div cs"
    have n0: "0 \<le> ?n" using cs by (simp add: pos_imp_zdiv_nonneg_iff)
    have "?n \<le> int (length pv)" by (rule chunk_count_bound [OF cs])
    with len assms(4,5) have n1: "?n < 2 ^ 63" by linarith
    have it: "Itoa ?n = Itoa_nat (nat ?n)" using n0 by (simp add: Itoa_def)
    have nc: "CHR '':'' \<notin> set (Itoa ?n)" unfolding it by (rule Itoa_nat_no_colon)
    have chunks: "stored m' (chunkKey key i)
                  = Some (RString (slice pv (i * cs) (min (i * cs + cs) (int (length pv)))))"
      if "0 \<le> i" "i < ?n" for i
      by (rule L(5) [OF True that])
    from GetLarge_chunked_healthy [OF L(3) L(2) L(4) [OF True] FormatBool_no_colon nc Atoi_Itoa [OF n0 n1] chunks, of gz]
    show ?thesis
      by (simp add: FormatBool_true concat_slices [OF cs])
  next
    case False
    show ?thesis
    proof (cases b)
      case True
      from GetLarge_single_healthy [OF L(3) L(2) L(7) [OF False True] L(6) [OF False], of gz] True
      show ?thesis by simp
    next
      case nb: False
      with False assms(10) have "store m (key @ cacheMetadataSuffix) = None" by blast
      with L(8) [OF False nb] have "store m' (key @ cacheMetadataSuffix) = None" by simp
      from GetLarge_plain_healthy [OF L(3) L(2) this L(6) [OF False], of gz] nb
      show ?thesis by simp
    qed
  qed
qed


text \<open>
  C2. A value of exactly \<open>maxValueSize\<close> bytes is stored (on a backend that answers, with
  a compressor that does not fail): \<open>SetLarge\<close> returns nil and the payload, compressed if it
  shrank, is in the store afterwards, under the base key or cut into its chunks, which put
  end to end are the payload. A value one byte over is refused with the value-too-large
  error and the manager is returned as it was: keyspace, round-trip counter and metrics
  are untouched, so no base, metadata or chunk key was written.
\<close>

theorem SetLarge_size_boundary:
  assumes "checkClient m = None"
    and "getLargeValueConfig m = (maxSize, chunkSize, compressThreshold, enableCompression, enableChunking)"
    and "m' = fst (SetLarge gz m key v)"
  shows "(int (length v) = maxSize \<and> healthy m \<and> gzip_write gz v = Inr z
            \<and> pv = (if enableCompression \<and> compressThreshold < int (length v) \<and> length z < length v
                     then z else v)
            \<and> n = (int (length pv) + chunkSize - 1) div chunkSize
          \<longrightarrow> snd (SetLarge gz m key v) = None
              \<and> (if enableChunking \<and> chunkSize < int (length pv)
                  then (\<forall>i. 0 \<le> i \<and> i < n
                          \<longrightarrow> stored m' (chunkKey key i)
                                = Some (RString (slice pv (i * chunkSize)
                                                  (min (i * chunkSize + chunkSize) (int (length pv))))))
                       \<and> concat (map (\<lambda>i. slice pv (i * chunkSize)
                                             (min (i * chunkSize + chunkSize) (int (length pv))))
                                    [0..n - 1]) = pv
                       \<and> stored m' (key @ cacheMetadataSuffix)
                           = Some (RString (''chunked:'' @ FormatBool (pv \<noteq> v) @ '':'' @ Itoa n))
                  else stored m' key = Some (RString pv)))
       \<and> (int (length v) = maxSize + 1
          \<longrightarrow> SetLarge gz m key v = (m, Some (ValueTooLarge (int (length v)) maxSize)))
       \<and> maxSize = maxValueSize m"
proof -
  have mx: "maxSize = maxValueSize m" using assms(2) by (simp add: maxValueSize_def)
  have cs: "0 < chunkSize" using assms(2) by (auto simp: getLargeValueConfig_def Let_def split: if_splits)
  have big: "SetLarge gz m key v = (m, Some (ValueTooLarge (int (length v)) maxSize))"
    if "int (length v) = maxSize + 1"
    using SetLarge_too_large [OF assms(1), of v gz key] that mx by simp
  have fit: "snd (SetLarge gz m key v) = None
              \<and> (if enableChunking \<and> chunkSize < int (length pv)
                  then (\<forall>i. 0 \<le> i \<and> i < n
                          \<longrightarrow> stored m' (chunkKey key i)
                                = Some (RString (slice pv (i * chunkSize)
                                                  (min (i * chunkSize + chunkSize) (int (length pv))))))
                       \<and> concat (map (\<lambda>i. slice pv (i * chunkSize)
                                             (min (i * chunkSize + chunkSize) (int (length pv))))
                                    [0..n - 1]) = pv
                       \<and> stored m' (key @ cacheMetadataSuffix)
                           = Some (RString (''chunked:'' @ FormatBool (pv \<noteq> v) @ '':'' @ Itoa n))
                  else stored m' key = Some (RString pv))"
    if h: "int (length v) = maxSize" "healthy m" "gzip_write gz v = Inr z"
      "pv = (if enableCompression \<and> compressThreshold < int (length v) \<and> length z < length v then z else v)"
      "n = (int (length pv) + chunkSize - 1) div chunkSize"
  proof -
    define b where "b = (enableCompression \<and> compressThreshold < int (length v) \<and> length z < length v)"
    have pv: "pv = (if b then z else v)" using h(4) by (simp add: b_def)
    have le: "int (length v) \<le> maxSize" using h(1) by simp
    note L = SetLarge_layout [OF assms(1) h(2) assms(2) le h(3) b_def pv assms(3)]
    have bb: "b = (pv \<noteq> v)" using pv by (auto simp: b_def)
    show ?thesis
    proof (cases "enableChunking \<and> chunkSize < int (length pv)")
      case True
      from L(1) L(4) [OF True] L(5) [OF True] concat_slices [OF cs, of pv] True show ?thesis
        by (simp add: h(5) bb)
    next
      case False
      from L(1) L(6) [OF False] False show ?thesis by auto
    qed
  qed
  from big fit mx show ?thesis by blast
qed

theorem SetLarge_size_boundary_witness:
  "checkClient small_manager = None \<and> maxValueSize small_manager = 12 \<and> healthy small_manager
   \<and> snd (SetLarge toy_gzip small_manager ''k'' ''abcdefghijkl'') = None
   \<and> stored (fst (SetLarge toy_gzip small_manager ''k'' ''abcdefghijkl'')) (chunkKey ''k'' 0) = Some (RString ''abcd'')
   \<and> stored (fst (SetLarge toy_gzip small_manager ''k'' ''abcdefghijkl'')) (chunkKey ''k'' 1) = Some (RString ''efgh'')
   \<and> stored (fst (SetLarge toy_gzip small_manager ''k'' ''abcdefghijkl'')) (chunkKey ''k'' 2) = Some (RString ''ijkl'')
   \<and> SetLarge toy_gzip small_manager ''k'' ''abcdefghijklm'' = (small_manager, Some (ValueTooLarge 13 12))"
proof -
  let ?v = "''abcdefghijkl''"
  let ?m' = "fst (SetLarge toy_gzip small_manager ''k'' ?v)"
  have z: "gzip_write toy_gzip ?v = Inr (CHR ''='' # ?v)" by (simp add: toy_gzip_def)
  note T = SetLarge_size_boundary [OF small_manager_ok(1) small_manager_cfg refl,
      where v = ?v and gz = toy_gzip and key = "''k''" and z = "CHR ''='' # ?v" and pv = ?v and n = 3]
  from T z small_manager_ok(2)
  have ok: "snd (SetLarge toy_gzip small_manager ''k'' ?v) = None"
    and ch: "\<forall>i. 0 \<le> i \<and> i < 3 \<longrightarrow> stored ?m' (chunkKey ''k'' i)
               = Some (RString (slice ?v (i * 4) (min (i * 4 + 4) (int (length ?v)))))"
    and mx: "maxValueSize small_manager = 12"
    by simp_all
  from ch [rule_format, of 0] ch [rule_format, of 1] ch [rule_format, of 2]
  have c: "stored ?m' (chunkKey ''k'' 0) = Some (RString ''abcd'')"
    "stored ?m' (chunkKey ''k'' 1) = Some (RString ''efgh'')"
    "stored ?m' (chunkKey ''k'' 2) = Some (RString ''ijkl'')"
    by (simp_all add: slice_def)
  from SetLarge_size_boundary [OF small_manager_ok(1) small_manager_cfg refl,
      where v = "''abcdefghijklm''" and gz = toy_gzip and key = "''k''"]
  have f: "SetLarge toy_gzip small_manager ''k'' ''abcdefghijklm'' = (small_manager, Some (ValueTooLarge 13 12))"
    by simp
  from small_manager_ok ok c f mx show ?thesis by simp
qed

text \<open>
  C3, as the code has it. For a payload above \<open>compressThreshold\<close> (within the size limit,
  on a backend that answers), \<open>SetLarge\<close> stores the compressed bytes exactly when
  compression is enabled and the compressed form is strictly shorter, and the original bytes
  otherwise. What it stored is written down in the metadata key when the value is
  compressed (\<open>single:true:1\<close>) or chunked (\<open>chunked:<compressed>:<count>\<close>); for a value
  that is neither, \<open>SetLarge\<close> writes no metadata record, so a key that had none has none
  afterwards. \<open>GetLarge\<close> takes the decision from the metadata record and never from the
  size of what it finds: under a key without a record it returns the stored bytes as they
  are, under \<open>single:true:1\<close> it decompresses the same bytes. Read right after the
  \<open>SetLarge\<close> (where the value is neither compressed nor chunked: on a key that had no
  record), it decompresses exactly when \<open>SetLarge\<close> compressed.
\<close>

theorem SetLarge_compression_decision:
  assumes "checkClient m = None" and "healthy m"
    and "getLargeValueConfig m = (maxSize, chunkSize, compressThreshold, enableCompression, enableChunking)"
    and "compressThreshold < int (length v)" and "int (length v) \<le> maxSize" and "maxSize < 2 ^ 63"
    and "gzip_write gz v = Inr z"
    and "compressed = (enableCompression \<and> length z < length v)"
    and "pv = (if compressed then z else v)"
    and "chunked = (enableChunking \<and> chunkSize < int (length pv))"
    and "n = (int (length pv) + chunkSize - 1) div chunkSize"
    and "m' = fst (SetLarge gz m key v)"
  shows "snd (SetLarge gz m key v) = None
     \<and> (if chunked
        then stored m' (key @ cacheMetadataSuffix)
               = Some (RString (''chunked:'' @ FormatBool compressed @ '':'' @ Itoa n))
             \<and> (\<forall>i. 0 \<le> i \<and> i < n \<longrightarrow>
                   stored m' (chunkKey key i)
                     = Some (RString (slice pv (i * chunkSize) (min (i * chunkSize + chunkSize) (int (length pv))))))
        else stored m' key = Some (RString pv)
             \<and> (if compressed then stored m' (key @ cacheMetadataSuffix) = Some (RString ''single:true:1'')
                else (store m (key @ cacheMetadataSuffix) = None
                        \<longrightarrow> store m' (key @ cacheMetadataSuffix) = None)))
     \<and> (chunked \<or> compressed \<or> store m (key @ cacheMetadataSuffix) = None
          \<longrightarrow> snd (GetLarge gz m' key) = (if compressed then decompressData gz pv else Inr pv))
     \<and> (\<forall>m2 d. checkClient m2 = None \<and> healthy m2 \<and> stored m2 key = Some (RString d)
                \<and> store m2 (key @ cacheMetadataSuffix) = None
              \<longrightarrow> snd (GetLarge gz m2 key) = Inr d)
     \<and> (\<forall>m2 d. checkClient m2 = None \<and> healthy m2 \<and> stored m2 key = Some (RString d)
                \<and> stored m2 (key @ cacheMetadataSuffix) = Some (RString ''single:true:1'')
              \<longrightarrow> snd (GetLarge gz m2 key) = decompressData gz d)"
proof -
  define b where "b = (enableCompression \<and> compressThreshold < int (length v) \<and> length z < length v)"
  have bc: "b = compressed" using assms(4,8) by (simp add: b_def)
  have pv: "pv = (if b then z else v)" using assms(9) bc by simp
  note L = SetLarge_layout [OF assms(1,2,3,5,7) b_def pv assms(12)]
  have w: "(if chunked
        then stored m' (key @ cacheMetadataSuffix)
               = Some (RString (''chunked:'' @ FormatBool compressed @ '':'' @ Itoa n))
             \<and> (\<forall>i. 0 \<le> i \<and> i < n \<longrightarrow>
                   stored m' (chunkKey key i)
                     = Some (RString (slice pv (i * chunkSize) (min (i * chunkSize + chunkSize) (int (length pv))))))
        else stored m' key = Some (RString pv)
             \<and> (if compressed then stored m' (key @ cacheMetadataSuffix) = Some (RString ''single:true:1'')
                else (store m (key @ cacheMetadataSuffix) = None
                        \<longrightarrow> store m' (key @ cacheMetadataSuffix) = None)))"
  proof (cases "enableChunking \<and> chunkSize < int (length pv)")
    case True
    from L(4) [OF True] L(5) [OF True] True show ?thesis
      by (simp add: assms(10,11) bc)
  next
    case False
    show ?thesis
    proof (cases b)
      case True
      from L(6) [OF False] L(7) [OF False True] False True show ?thesis
        by (auto simp: assms(10) bc)
    next
      case nb: False
      from L(6) [OF False] L(8) [OF False nb] False nb show ?thesis
        by (auto simp: assms(10) bc)
    qed
  qed
  have r: "snd (GetLarge gz m' key) = (if compressed then decompressData gz pv else Inr pv)"
    if "chunked \<or> compressed \<or> store m (key @ cacheMetadataSuffix) = None"
  proof -
    from that have "(enableChunking \<and> chunkSize < int (length pv)) \<or> b
                    \<or> store m (key @ cacheMetadataSuffix) = None"
      by (simp add: assms(10) bc)
    from GetLarge_after_SetLarge [OF assms(1,2,3,5,6,7) b_def pv assms(12) this, of ] bc
    show ?thesis by simp
  qed
  have r1: "snd (GetLarge gz m2 key) = Inr d"
    if "checkClient m2 = None \<and> healthy m2 \<and> stored m2 key = Some (RString d)
        \<and> store m2 (key @ cacheMetadataSuffix) = None" for m2 d
    using that GetLarge_plain_healthy [of m2 key d gz] by simp
  have r2: "snd (GetLarge gz m2 key) = decompressData gz d"
    if "checkClient m2 = None \<and> healthy m2 \<and> stored m2 key = Some (RString d)
        \<and> stored m2 (key @ cacheMetadataSuffix) = Some (RString ''single:true:1'')" for m2 d
    using that GetLarge_single_healthy [of m2 key d gz] by simp
  from L(1) w r r1 r2 show ?thesis by blast
qed

theorem SetLarge_compression_decision_witness:
  "stored (fst (SetLarge toy_gzip small_manager ''k'' ''aaaaaaaa'')) ''k'' = Some (RString ''#8a'')
   \<and> stored (fst (SetLarge toy_gzip small_manager ''k'' ''aaaaaaaa'')) (''k'' @ cacheMetadataSuffix)
       = Some (RString ''single:true:1'')
   \<and> snd (SetLarge toy_gzip small_manager ''k'' ''aaaaaaaa'') = None
   \<and> snd (GetLarge toy_gzip (fst (SetLarge toy_gzip small_manager ''k'' ''aaaaaaaa'')) ''k'') = Inr ''aaaaaaaa''"
proof -
  have z: "gzip_write toy_gzip ''aaaaaaaa'' = Inr ''#8a''" by (simp add: toy_gzip_def)
  have d: "decompressData toy_gzip ''#8a'' = Inr ''aaaaaaaa''" by (simp add: decompressData_def toy_gzip_def)
  from SetLarge_compression_decision [OF small_manager_ok small_manager_cfg _ _ _ z refl refl refl refl refl,
      of "''k''"] d
  show ?thesis by simp
qed

text \<open>
  The claim as written fails on a payload above the threshold that does not shrink and fits
  one chunk: it is stored under the base key and no metadata record exists afterwards.
\<close>

theorem SetLarge_plain_writes_no_metadata:
  "CompressThreshold (LargeValue (config small_manager)) < int (length ''abcd'')
   \<and> snd (SetLarge toy_gzip small_manager ''k'' ''abcd'') = None
   \<and> stored (fst (SetLarge toy_gzip small_manager ''k'' ''abcd'')) ''k'' = Some (RString ''abcd'')
   \<and> store (fst (SetLarge toy_gzip small_manager ''k'' ''abcd'')) (''k'' @ cacheMetadataSuffix) = None"
  by code_simp

end
